theory Spec2Isabelle
  imports Complex_Main
begin

section \<open>Values\<close>

text \<open>
  The engine of \<^verbatim>\<open>to_dict/serializer.py\<close> dispatches on the runtime class of a Python
  value. The values it can meet are the constructors of \<open>pyval\<close>:
  the six simple types, \<^verbatim>\<open>datetime\<close> and \<^verbatim>\<open>date\<close>, an iterable that is no
  mapping (list, tuple, set, generator), a \<^verbatim>\<open>dict\<close> (its items, in the order of the
  dict; the keys are strings), an instance of \<^verbatim>\<open>SerializerMixin\<close> (its
  \<^verbatim>\<open>__schema__\<close> and its mapped attributes in the order of \<^verbatim>\<open>get_model_keys\<close>),
  a callable (with the value that calling it returns) and any other object.
\<close>

datatype pydate = Date int int int

datatype pydatetime = Datetime pydate int int int

datatype pyval =
    PNone
  | PBool bool
  | PInt int
  | PFloat real
  | PStr string
  | PBytes "nat list"
  | PDatetime pydatetime
  | PDate pydate
  | PList "pyval list"
  | PDict "(string \<times> pyval) list"
  | PModel "string list" "(string \<times> pyval) list"
  | PCallable pyval
  | PObject nat

text \<open>
  The two exceptions of the module: \<^verbatim>\<open>IsNotSerializable\<close>, and the plain
  \<^verbatim>\<open>Exception\<close> that \<^verbatim>\<open>_get_sub_schema\<close> raises (\<open>ExcludedKey\<close>).
\<close>

datatype error = IsNotSerializable | ExcludedKey

subsection \<open>The \<^verbatim>\<open>isinstance\<close> tests of \<^verbatim>\<open>__call__\<close>\<close>

text \<open>\<^verbatim>\<open>simple_types = (int, str, float, bytes, bool, type(None))\<close>\<close>

fun is_simple :: "pyval \<Rightarrow> bool" where
  "is_simple PNone = True"
| "is_simple (PBool _) = True"
| "is_simple (PInt _) = True"
| "is_simple (PFloat _) = True"
| "is_simple (PStr _) = True"
| "is_simple (PBytes _) = True"
| "is_simple _ = False"

fun is_datetime :: "pyval \<Rightarrow> bool" where
  "is_datetime (PDatetime _) = True"
| "is_datetime _ = False"

text \<open>\<^verbatim>\<open>datetime\<close> is a subclass of \<^verbatim>\<open>date\<close>.\<close>

fun is_date :: "pyval \<Rightarrow> bool" where
  "is_date (PDate _) = True"
| "is_date (PDatetime _) = True"
| "is_date _ = False"

text \<open>
  \<^verbatim>\<open>isinstance(value, Iterable)\<close>: strings, byte strings and dicts are iterable
  as lists and tuples are.
\<close>

fun is_Iterable :: "pyval \<Rightarrow> bool" where
  "is_Iterable (PStr _) = True"
| "is_Iterable (PBytes _) = True"
| "is_Iterable (PList _) = True"
| "is_Iterable (PDict _) = True"
| "is_Iterable _ = False"

fun is_SerializerMixin :: "pyval \<Rightarrow> bool" where
  "is_SerializerMixin (PModel _ _) = True"
| "is_SerializerMixin _ = False"

fun is_dict :: "pyval \<Rightarrow> bool" where
  "is_dict (PDict _) = True"
| "is_dict _ = False"

fun callable :: "pyval \<Rightarrow> bool" where
  "callable (PCallable _) = True"
| "callable _ = False"

text \<open>\<^verbatim>\<open>value()\<close>, for a callable.\<close>

fun call_value :: "pyval \<Rightarrow> pyval" where
  "call_value (PCallable r) = r"
| "call_value v = v"

text \<open>
  What \<^verbatim>\<open>for v in value\<close> yields: the elements of a list, the keys of a dict, the
  one-character strings of a string, the integers of a byte string.
\<close>

fun iter_elems :: "pyval \<Rightarrow> pyval list" where
  "iter_elems (PList vs) = vs"
| "iter_elems (PDict kvs) = map (\<lambda>kv. PStr (fst kv)) kvs"
| "iter_elems (PStr s) = map (\<lambda>c. PStr [c]) s"
| "iter_elems (PBytes bs) = map (\<lambda>b. PInt (int b)) bs"
| "iter_elems _ = []"

text \<open>\<^verbatim>\<open>value.__schema__\<close>, \<^verbatim>\<open>value.get_model_keys()\<close> with \<^verbatim>\<open>getattr\<close>, \<^verbatim>\<open>value.items()\<close>.\<close>

fun schema_of :: "pyval \<Rightarrow> string list" where
  "schema_of (PModel s _) = s"
| "schema_of _ = []"

fun model_attrs :: "pyval \<Rightarrow> (string \<times> pyval) list" where
  "model_attrs (PModel _ kvs) = kvs"
| "model_attrs _ = []"

fun dict_items :: "pyval \<Rightarrow> (string \<times> pyval) list" where
  "dict_items (PDict kvs) = kvs"
| "dict_items _ = []"

section \<open>Path strings\<close>

text \<open>\<^verbatim>\<open>_WILDCARD = '*'\<close>, \<^verbatim>\<open>_DELIM = '.'\<close>, \<^verbatim>\<open>_NEGATION = '-'\<close>\<close>

definition WILDCARD :: string where
  "WILDCARD = ''*''"

definition DELIM :: char where
  "DELIM = CHR ''.''"

definition NEGATION :: char where
  "NEGATION = CHR ''-''"

text \<open>\<^verbatim>\<open>'%s%s' % (self._NEGATION, key)\<close>\<close>

definition negate :: "string \<Rightarrow> string" where
  "negate key = NEGATION # key"

text \<open>\<^verbatim>\<open>key.startswith(self._NEGATION)\<close>\<close>

definition is_negation :: "string \<Rightarrow> bool" where
  "is_negation key = (case key of [] \<Rightarrow> False | c # _ \<Rightarrow> c = NEGATION)"

text \<open>\<^verbatim>\<open>key[len(self._NEGATION):]\<close> for a negation, the key itself otherwise.\<close>

definition admit :: "string \<Rightarrow> string" where
  "admit key = (if is_negation key then drop 1 key else key)"

text \<open>\<^verbatim>\<open>key.startswith('_')\<close>\<close>

definition is_private :: "string \<Rightarrow> bool" where
  "is_private key = (case key of [] \<Rightarrow> False | c # _ \<Rightarrow> c = CHR ''_'')"

text \<open>
  \<^verbatim>\<open>k.split('.')\<close>: the segments between the delimiters; never the empty list
  (\<^verbatim>\<open>''.split('.') == ['']\<close>).
\<close>

fun split_delim :: "string \<Rightarrow> string list" where
  "split_delim [] = [[]]"
| "split_delim (c # cs) =
     (if c = DELIM then [] # split_delim cs
      else (case split_delim cs of
              [] \<Rightarrow> [[c]]
            | s # ss \<Rightarrow> (c # s) # ss))"

text \<open>\<^verbatim>\<open>'.'.join(k)\<close>\<close>

fun join_delim :: "string list \<Rightarrow> string" where
  "join_delim [] = []"
| "join_delim [s] = s"
| "join_delim (s # t # ss) = s @ DELIM # join_delim (t # ss)"

section \<open>The schema merger\<close>

text \<open>
  \<^verbatim>\<open>merge_schemas(*args)\<close> builds a Python \<^verbatim>\<open>set\<close> of path strings. The body of its
  inner loop, for one key \<open>k\<close>:
  \<^verbatim>\<open>
      if self._is_negation(k):
          if self._admit(k) in res:
              res.remove(self._admit(k))
      else:
          if self._negate(k) in res:
              res.remove(self._negate(k))
      res.add(k)
  \<close>
\<close>

definition merge_add :: "string \<Rightarrow> string set \<Rightarrow> string set" where
  "merge_add k res =
     insert k
       (if is_negation k
        then (if admit k \<in> res then res - {admit k} else res)
        else (if negate k \<in> res then res - {negate k} else res))"

text \<open>
  The outer loop reverses the argument tuple and pops from its end, so the lists are
  taken from the first argument to the last; each list is run through from left to right.
\<close>

definition merge_schemas :: "string list list \<Rightarrow> string set" where
  "merge_schemas args = fold (\<lambda>keys res. fold merge_add keys res) args {}"

section \<open>The schema store\<close>

text \<open>
  \<^verbatim>\<open>self._keys\<close>: a dict from the head of a path to the list of the tails stored under
  it, each tail the list of the segments after the head.
\<close>

type_synonym store = "string \<rightharpoonup> string list list"

text \<open>
  The body of the loop of \<^verbatim>\<open>_set_schema\<close>, for one path string \<open>k\<close>:
  \<^verbatim>\<open>
      head, *tail = k.split(self._DELIM)
      if head in self._keys:
          if tail:
              self._keys[head].append(tail)
      else:
          self._keys[head] = [tail] if tail else []
  \<close>
\<close>

definition set_key :: "string \<Rightarrow> store \<Rightarrow> store" where
  "set_key k keys =
     (let segs = split_delim k; head = hd segs; tail = tl segs in
      case keys head of
        Some tails \<Rightarrow> (if tail \<noteq> [] then keys(head \<mapsto> tails @ [tail]) else keys)
      | None \<Rightarrow> keys(head \<mapsto> (if tail \<noteq> [] then [tail] else [])))"

definition set_schema :: "store \<Rightarrow> string list \<Rightarrow> store" where
  "set_schema keys ks = fold set_key ks keys"

text \<open>\<^verbatim>\<open>key in self._keys\<close>\<close>

definition has_key :: "store \<Rightarrow> string \<Rightarrow> bool" where
  "has_key keys key = (keys key \<noteq> None)"

text \<open>\<^verbatim>\<open>self._keys.get(key, [])\<close>\<close>

definition keys_get :: "store \<Rightarrow> string \<Rightarrow> string list list" where
  "keys_get keys key = (case keys key of None \<Rightarrow> [] | Some tails \<Rightarrow> tails)"

text \<open>
  The second loop of \<^verbatim>\<open>_get_sub_schema\<close> runs over the list stored under the negated
  key and writes into each tail it visits (\<^verbatim>\<open>k[0] = self._negate(k[0])\<close>): the tails
  are the list objects of the store, so the store changes with them. \<open>negate_tails\<close>
  takes the tails still to visit and those already rewritten; it returns the stored
  list as the loop leaves it, and whether the loop raised on an empty tail.
\<close>

fun negate_tails :: "string list list \<Rightarrow> string list list \<Rightarrow> bool \<times> string list list" where
  "negate_tails [] done = (True, done)"
| "negate_tails (k # ks) done =
     (if k = [] then (False, done @ k # ks)
      else negate_tails ks (done @ [negate (hd k) # tl k]))"

text \<open>
  \<^verbatim>\<open>_get_sub_schema(key)\<close>: the sub-schema (or the exception), and the store after the call.
  \<^verbatim>\<open>
      keys = []
      for k in self._keys.get(key, []):
          if k:
              keys.append(k)
      for k in self._keys.get(self._negate(key), []):
          if not k:
              raise Exception('Excluded KEY:%s has no access to subkeys' % k)
          k[0] = self._negate(k[0])  # move negation mark to next elm
          keys.append(k)
      return [self._DELIM.join(k) for k in keys]
  \<close>
\<close>

definition get_sub_schema :: "store \<Rightarrow> string \<Rightarrow> (error + string list) \<times> store" where
  "get_sub_schema keys key =
     (let plain = filter (\<lambda>k. k \<noteq> []) (keys_get keys key) in
      case keys (negate key) of
        None \<Rightarrow> (Inr (map join_delim plain), keys)
      | Some tails \<Rightarrow>
          (case negate_tails tails [] of
             (True, tails') \<Rightarrow>
               (Inr (map join_delim (plain @ tails')), keys(negate key \<mapsto> tails'))
           | (False, tails') \<Rightarrow> (Inl ExcludedKey, keys(negate key \<mapsto> tails'))))"

section \<open>The engine\<close>

text \<open>
  \<^verbatim>\<open>self.kwargs\<close>: the four options of \<^verbatim>\<open>Serializer(**kwargs)\<close>; \<open>None\<close> is an option
  that was not given (or, for the two formats, given as \<^verbatim>\<open>None\<close>).
\<close>

record kwargs =
  kw_is_greedy :: "bool option"
  kw_to_user_tz :: "bool option"
  kw_datetime_format :: "string option"
  kw_date_format :: "string option"

text \<open>\<^verbatim>\<open>bool(self.kwargs.get('is_greedy', True))\<close>\<close>

definition is_greedy :: "kwargs \<Rightarrow> bool" where
  "is_greedy kw = (case kw_is_greedy kw of None \<Rightarrow> True | Some b \<Rightarrow> b)"

text \<open>\<^verbatim>\<open>bool(self.kwargs.get('to_user_tz', False))\<close>\<close>

definition to_user_tz :: "kwargs \<Rightarrow> bool" where
  "to_user_tz kw = (case kw_to_user_tz kw of None \<Rightarrow> False | Some b \<Rightarrow> b)"

text \<open>\<^verbatim>\<open>self.kwargs.get('datetime_format') or '%Y-%m-%d %H:%M'\<close>\<close>

definition datetime_format :: "kwargs \<Rightarrow> string" where
  "datetime_format kw =
     (case kw_datetime_format kw of
        None \<Rightarrow> ''%Y-%m-%d %H:%M''
      | Some f \<Rightarrow> (if f = [] then ''%Y-%m-%d %H:%M'' else f))"

text \<open>\<^verbatim>\<open>self.kwargs.get('date_format') or '%Y-%m-%d'\<close>\<close>

definition date_format :: "kwargs \<Rightarrow> string" where
  "date_format kw =
     (case kw_date_format kw of
        None \<Rightarrow> ''%Y-%m-%d''
      | Some f \<Rightarrow> (if f = [] then ''%Y-%m-%d'' else f))"

text \<open>
  What the engine takes from outside the module: \<^verbatim>\<open>strftime\<close> of the standard
  library, the three functions of \<^verbatim>\<open>lib.timezones\<close> (called with
  \<^verbatim>\<open>rebase=False\<close>), and the order in which Python runs through the \<^verbatim>\<open>set\<close> that
  \<^verbatim>\<open>merge_schemas\<close> returns, which the program does not choose.
\<close>

record env =
  datetime_strftime :: "pydatetime \<Rightarrow> string \<Rightarrow> string"
  date_strftime :: "pydate \<Rightarrow> string \<Rightarrow> string"
  to_local_time :: "pydatetime \<Rightarrow> pydatetime"
  format_datetime :: "pydatetime \<Rightarrow> string \<Rightarrow> string"
  format_date :: "pydate \<Rightarrow> string \<Rightarrow> string"
  iter_set :: "string set \<Rightarrow> string list"

text \<open>
  \<^verbatim>\<open>_is_valid(key)\<close>:
  \<^verbatim>\<open>
      if self._negate(key) in self._keys:
          if not self._keys[self._negate(key)]:  # If tail is empty
              return False
      if self._WILDCARD in self._keys:
          return True
      return key in self._keys or self.is_greedy and not key.startswith('_')
  \<close>
\<close>

definition is_valid :: "kwargs \<Rightarrow> store \<Rightarrow> string \<Rightarrow> bool" where
  "is_valid kw keys key =
     (if has_key keys (negate key) \<and> keys_get keys (negate key) = [] then False
      else if has_key keys WILDCARD then True
      else (has_key keys key \<or> (is_greedy kw \<and> \<not> is_private key)))"

fun serialize_datetime :: "env \<Rightarrow> kwargs \<Rightarrow> pyval \<Rightarrow> pyval" where
  "serialize_datetime E kw (PDatetime d) =
     (if to_user_tz kw then PStr (format_datetime E (to_local_time E d) (datetime_format kw))
      else PStr (datetime_strftime E d (datetime_format kw)))"
| "serialize_datetime E kw v = v"

fun serialize_date :: "env \<Rightarrow> kwargs \<Rightarrow> pyval \<Rightarrow> pyval" where
  "serialize_date E kw (PDate d) =
     (if to_user_tz kw then PStr (format_date E d (date_format kw))
      else PStr (date_strftime E d (date_format kw)))"
| "serialize_date E kw v = v"

text \<open>\<^verbatim>\<open>res[k] = v\<close> on the dict under construction.\<close>

fun dict_set :: "(string \<times> pyval) list \<Rightarrow> string \<Rightarrow> pyval \<Rightarrow> (string \<times> pyval) list" where
  "dict_set [] k v = [(k, v)]"
| "dict_set ((k', v') # kvs) k v =
     (if k' = k then (k, v) # kvs else (k', v') # dict_set kvs k v)"

text \<open>The measure under which the recursion of the engine ends.\<close>

fun weight :: "pyval \<Rightarrow> nat" where
  "weight (PList vs) = Suc (sum_list (map (\<lambda>v. Suc (weight v)) vs))"
| "weight (PDict kvs) = Suc (sum_list (map (\<lambda>kv. Suc (weight (snd kv))) kvs))"
| "weight (PModel s kvs) = Suc (sum_list (map (\<lambda>kv. Suc (weight (snd kv))) kvs))"
| "weight (PCallable r) = Suc (weight r)"
| "weight v = 0"

definition weights :: "pyval list \<Rightarrow> nat" where
  "weights vs = sum_list (map (\<lambda>v. Suc (weight v)) vs)"

definition item_weights :: "(string \<times> pyval) list \<Rightarrow> nat" where
  "item_weights kvs = sum_list (map (\<lambda>kv. Suc (weight (snd kv))) kvs)"

lemma sum_list_Suc_le:
  "(\<Sum>x\<leftarrow>xs. Suc 0) \<le> (\<Sum>kv\<leftarrow>xs. Suc (f kv))"
  by (induction xs) simp_all

lemma weights_iter_elems:
  "\<not> is_simple v \<Longrightarrow> weights (iter_elems v) < Suc (weight v)"
proof (cases v)
  case (PDict kvs)
  then show ?thesis
    using sum_list_Suc_le [of kvs "\<lambda>kv. weight (snd kv)"]
    by (simp add: weights_def comp_def)
qed (simp_all add: weights_def)

lemma weight_call_value: "weight (call_value v) \<le> weight v"
  by (cases v) simp_all

lemma item_weights_model:
  "is_SerializerMixin v \<Longrightarrow> item_weights (model_attrs v) < weight v"
  by (cases v) (simp_all add: item_weights_def)

lemma item_weights_dict:
  "is_dict v \<Longrightarrow> item_weights (dict_items v) < weight v"
  by (cases v) (simp_all add: item_weights_def)

text \<open>
  The five methods that call one another. Each takes the store \<^verbatim>\<open>self._keys\<close> of the
  instance it runs on and returns, with its result or the exception it raises, the store
  as the call leaves it.
  \<^item> \<open>call\<close> is \<^verbatim>\<open>__call__(value, schema)\<close>, its tests in the order of the source.
  \<^item> \<open>serialize_iter\<close> is the loop of \<^verbatim>\<open>serialize_iter\<close> over the elements still to
    visit, with the list \<^verbatim>\<open>res\<close> built so far; it calls \<^verbatim>\<open>self(v)\<close>, the same instance
    with the default schema \<^verbatim>\<open>()\<close>, and goes on after \<^verbatim>\<open>IsNotSerializable\<close> only.
  \<^item> \<open>serialize_dict\<close> and \<open>serialize_model\<close> are the loops over \<^verbatim>\<open>value.items()\<close> and
    over \<^verbatim>\<open>value.get_model_keys()\<close> with \<^verbatim>\<open>getattr(value, k)\<close>, with the dict
    \<^verbatim>\<open>res\<close> built so far.
  \<^item> \<open>fork\<close> is \<^verbatim>\<open>_fork(key, value)\<close>: \<^verbatim>\<open>_get_sub_schema\<close> runs on this instance, the
    value is serialized by a new instance (an empty store), whose store is dropped.
\<close>

function call :: "env \<Rightarrow> kwargs \<Rightarrow> store \<Rightarrow> pyval \<Rightarrow> string list \<Rightarrow> (error + pyval) \<times> store"
  and serialize_iter :: "env \<Rightarrow> kwargs \<Rightarrow> store \<Rightarrow> pyval list \<Rightarrow> pyval list \<Rightarrow> (error + pyval) \<times> store"
  and serialize_dict :: "env \<Rightarrow> kwargs \<Rightarrow> store \<Rightarrow> (string \<times> pyval) list \<Rightarrow> (string \<times> pyval) list \<Rightarrow> (error + pyval) \<times> store"
  and serialize_model :: "env \<Rightarrow> kwargs \<Rightarrow> store \<Rightarrow> (string \<times> pyval) list \<Rightarrow> (string \<times> pyval) list \<Rightarrow> (error + pyval) \<times> store"
  and fork :: "env \<Rightarrow> kwargs \<Rightarrow> store \<Rightarrow> string \<Rightarrow> pyval \<Rightarrow> (error + pyval) \<times> store"
where
  "call E kw keys value0 schema =
     (let value = (if callable value0 then call_value value0 else value0) in
      if is_simple value then (Inr value, keys)
      else if is_datetime value then (Inr (serialize_datetime E kw value), keys)
      else if is_date value then (Inr (serialize_date E kw value), keys)
      else if is_Iterable value then serialize_iter E kw keys (iter_elems value) []
      else if is_SerializerMixin value then
        serialize_model E kw
          (set_schema keys (iter_set E (merge_schemas [schema_of value, schema])))
          (model_attrs value) []
      else if is_dict value then
        serialize_dict E kw (set_schema keys schema) (dict_items value) []
      else (Inl IsNotSerializable, keys))"
| "serialize_iter E kw keys [] res = (Inr (PList res), keys)"
| "serialize_iter E kw keys (v # vs) res =
     (case call E kw keys v [] of
        (Inr r, keys') \<Rightarrow> serialize_iter E kw keys' vs (res @ [r])
      | (Inl IsNotSerializable, keys') \<Rightarrow> serialize_iter E kw keys' vs res
      | (Inl e, keys') \<Rightarrow> (Inl e, keys'))"
| "serialize_dict E kw keys [] res = (Inr (PDict res), keys)"
| "serialize_dict E kw keys ((k, v) # kvs) res =
     (if is_valid kw keys k then
        (case fork E kw keys k v of
           (Inr r, keys') \<Rightarrow> serialize_dict E kw keys' kvs (dict_set res k r)
         | (Inl e, keys') \<Rightarrow> (Inl e, keys'))
      else serialize_dict E kw keys kvs res)"
| "serialize_model E kw keys [] res = (Inr (PDict res), keys)"
| "serialize_model E kw keys ((k, v) # kvs) res =
     (if is_valid kw keys k then
        (case fork E kw keys k v of
           (Inr r, keys') \<Rightarrow> serialize_model E kw keys' kvs (dict_set res k r)
         | (Inl e, keys') \<Rightarrow> (Inl e, keys'))
      else serialize_model E kw keys kvs res)"
| "fork E kw keys key value =
     (if is_simple value then (Inr value, keys)
      else (case get_sub_schema keys key of
              (Inl e, keys') \<Rightarrow> (Inl e, keys')
            | (Inr sub, keys') \<Rightarrow> (fst (call E kw Map.empty value sub), keys')))"
  by pat_completeness auto

termination
proof (relation "measure (\<lambda>x. case x of
      Inl (Inl (E, kw, keys, v, schema)) \<Rightarrow> 2 * weight v + 1
    | Inl (Inr (E, kw, keys, vs, res)) \<Rightarrow> 2 * weights vs
    | Inr (Inl (E, kw, keys, kvs, res)) \<Rightarrow> 2 * item_weights kvs + 1
    | Inr (Inr (Inl (E, kw, keys, kvs, res))) \<Rightarrow> 2 * item_weights kvs + 1
    | Inr (Inr (Inr (E, kw, keys, key, v))) \<Rightarrow> 2 * weight v + 2)", goal_cases)
  case 1
  show ?case by simp
next
  case (2 E kw keys value0 schema x)
  then show ?case
    using weights_iter_elems [of x] weight_call_value [of value0]
    by (auto split: if_splits)
next
  case (3 E kw keys value0 schema x)
  then show ?case
    using item_weights_model [of x] weight_call_value [of value0]
    by (auto split: if_splits)
next
  case (4 E kw keys value0 schema x)
  then show ?case
    using item_weights_dict [of x] weight_call_value [of value0]
    by (auto split: if_splits)
qed (simp_all add: weights_def item_weights_def)

declare call.simps [simp del]

declare fork.simps [simp del]

text \<open>A new instance: \<^verbatim>\<open>self._keys = {}\<close>.\<close>

definition new_keys :: store where
  "new_keys = Map.empty"

text \<open>
  \<^verbatim>\<open>SerializerMixin.to_dict\<close> with its five parameters: a new instance, called once on
  the model.
\<close>

definition to_dict ::
  "env \<Rightarrow> pyval \<Rightarrow> string list \<Rightarrow> bool \<Rightarrow> string option \<Rightarrow> string option \<Rightarrow> bool \<Rightarrow> error + pyval"
where
  "to_dict E self schema greedy datef datetimef tz =
     fst (call E \<lparr>kw_is_greedy = Some greedy, kw_to_user_tz = Some tz,
                   kw_datetime_format = datetimef, kw_date_format = datef\<rparr>
            new_keys self schema)"

section \<open>A sample configuration\<close>

text \<open>
  The engine as \<^verbatim>\<open>Serializer()\<close> builds it, with no option given, and surroundings
  to run it in: formatting functions that return the pattern they are given, and a set
  that is run through in the order of a reference list.
\<close>

definition no_kwargs :: kwargs where
  "no_kwargs = \<lparr>kw_is_greedy = None, kw_to_user_tz = None,
                 kw_datetime_format = None, kw_date_format = None\<rparr>"

fun show_date :: "pydate \<Rightarrow> string \<Rightarrow> string" where
  "show_date (Date y m d) f = f"

fun show_datetime :: "pydatetime \<Rightarrow> string \<Rightarrow> string" where
  "show_datetime (Datetime d h mi s) f = f"

definition sample_env :: "string list \<Rightarrow> env" where
  "sample_env order =
     \<lparr>datetime_strftime = show_datetime, date_strftime = show_date,
      to_local_time = (\<lambda>d. d), format_datetime = show_datetime,
      format_date = show_date, iter_set = (\<lambda>S. filter (\<lambda>x. x \<in> S) order)\<rparr>"

section \<open>Auxiliary notions of the proofs\<close>

text \<open>Whether adding \<open>j\<close> to the merged set takes \<open>k\<close> out of it.\<close>

definition cancels :: "string \<Rightarrow> string \<Rightarrow> bool" where
  "cancels j k = (if is_negation j then k = admit j else k = negate j)"

text \<open>No list of the store holds an empty tail.\<close>

definition tails_nonempty :: "store \<Rightarrow> bool" where
  "tails_nonempty keys = (\<forall>h ts. keys h = Some ts \<longrightarrow> [] \<notin> set ts)"

text \<open>
  The value that \<^verbatim>\<open>__call__\<close> dispatches on, and whether it falls into one of the
  categories that the dispatch knows.
\<close>

definition resolve :: "pyval \<Rightarrow> pyval" where
  "resolve v = (if callable v then call_value v else v)"

definition recognized :: "pyval \<Rightarrow> bool" where
  "recognized v =
     (let value = resolve v in
      is_simple value \<or> is_datetime value \<or> is_date value \<or> is_Iterable value \<or>
      is_SerializerMixin value \<or> is_dict value)"

text \<open>
  What \<^verbatim>\<open>self(v)\<close> gives for each element of a list in turn, the store handed from one
  element to the next as \<^verbatim>\<open>serialize_iter\<close> does, and the results among these outcomes.
\<close>

fun iter_outcomes :: "env \<Rightarrow> kwargs \<Rightarrow> store \<Rightarrow> pyval list \<Rightarrow> (error + pyval) list" where
  "iter_outcomes E kw keys [] = []"
| "iter_outcomes E kw keys (v # vs) =
     fst (call E kw keys v []) # iter_outcomes E kw (snd (call E kw keys v [])) vs"

fun kept :: "(error + pyval) list \<Rightarrow> pyval list" where
  "kept [] = []"
| "kept (Inr r # os) = r # kept os"
| "kept (Inl e # os) = kept os"

text \<open>
  A result that is not the exception of \<^verbatim>\<open>_get_sub_schema\<close>, with a store that holds no
  empty tail.
\<close>

definition sound_result :: "(error + 'a) \<times> store \<Rightarrow> bool" where
  "sound_result r = (fst r \<noteq> Inl ExcludedKey \<and> tails_nonempty (snd r))"

text \<open>
  The tails that \<open>set_schema\<close> puts under the head \<open>h\<close> when it loads the paths \<open>ks\<close>:
  those of the paths that start with \<open>h\<close> and go on, in order.
\<close>

definition stored_tails :: "string \<Rightarrow> string list \<Rightarrow> string list list" where
  "stored_tails h ks =
     filter (\<lambda>t. t \<noteq> []) (map (\<lambda>p. tl (split_delim p)) (filter (\<lambda>p. hd (split_delim p) = h) ks))"

section \<open>Path strings and the merger\<close>

lemma negate_not_self: "negate k \<noteq> k"
  by (simp add: negate_def)

lemma is_negation_negate: "is_negation (negate k)"
  by (simp add: is_negation_def negate_def)

lemma admit_negate: "admit (negate k) = k"
  by (simp add: admit_def is_negation_def negate_def)

lemma negate_admit: "is_negation k \<Longrightarrow> negate (admit k) = k"
  by (cases k) (simp_all add: admit_def is_negation_def negate_def)

lemma merge_add_plain: "\<not> is_negation k \<Longrightarrow> merge_add k res = insert k (res - {negate k})"
  by (auto simp: merge_add_def)

lemma merge_add_negated: "is_negation k \<Longrightarrow> merge_add k res = insert k (res - {admit k})"
  by (auto simp: merge_add_def)

lemma merge_schemas_concat: "merge_schemas args = fold merge_add (concat args) {}"
proof -
  have "fold (\<lambda>keys res. fold merge_add keys res) args S = fold merge_add (concat args) S" for S
    by (induction args arbitrary: S) simp_all
  then show ?thesis by (simp add: merge_schemas_def)
qed
lemma in_merge_add: "k \<in> merge_add j res \<longleftrightarrow> k = j \<or> (k \<in> res \<and> \<not> cancels j k)"
  by (auto simp: merge_add_def cancels_def)

lemma fold_merge_add_subset: "fold merge_add ks S \<subseteq> S \<union> set ks"
proof (induction ks arbitrary: S)
  case Nil
  show ?case by simp
next
  case (Cons j ks)
  have "merge_add j S \<subseteq> insert j S" by (auto simp: merge_add_def)
  with Cons [of "merge_add j S"] show ?case by auto
qed

lemma fold_merge_add_start:
  "k \<in> set ks \<Longrightarrow> k \<in> fold merge_add ks S \<longleftrightarrow> k \<in> fold merge_add ks T"
proof (induction ks arbitrary: S T rule: rev_induct)
  case Nil
  then show ?case by simp
next
  case (snoc j ks)
  show ?case
  proof (cases "k = j")
    case True
    then show ?thesis by (simp add: in_merge_add)
  next
    case False
    with snoc.prems have "k \<in> set ks" by simp
    from snoc.IH [OF this, of S T] show ?thesis by (simp add: in_merge_add)
  qed
qed

lemma fold_merge_add_again: "fold merge_add ks (fold merge_add ks {}) = fold merge_add ks {}"
proof (rule set_eqI)
  fix k
  let ?R = "fold merge_add ks {}"
  show "k \<in> fold merge_add ks ?R \<longleftrightarrow> k \<in> ?R"
  proof (cases "k \<in> set ks")
    case True
    then show ?thesis by (rule fold_merge_add_start)
  next
    case False
    have "?R \<subseteq> set ks" using fold_merge_add_subset [of ks "{}"] by simp
    with False have "k \<notin> ?R" by auto
    moreover have "fold merge_add ks ?R \<subseteq> ?R \<union> set ks" by (rule fold_merge_add_subset)
    ultimately show ?thesis using False by auto
  qed
qed

text \<open>
  Claim C6. For every list of path strings \<open>L\<close>, merging \<open>L\<close> with itself gives the set
  of path strings that merging \<open>L\<close> alone gives.
\<close>

theorem merge_schemas_idempotent: "merge_schemas [L, L] = merge_schemas [L]"
  by (simp add: merge_schemas_def fold_merge_add_again)

text \<open>
  Claim C5. The merger runs through its argument lists from the first (lowest priority)
  to the last, each from left to right; adding a plain key takes its negated form out of
  the result, adding a negated key takes the plain form out; so merging \<open>['-x']\<close> with
  \<open>['x']\<close> after it leaves \<open>x\<close> and not \<open>-x\<close>.
\<close>

theorem merge_schemas_priority:
  "merge_schemas args = fold merge_add (concat args) {} \<and>
   (\<not> is_negation k \<longrightarrow> merge_add k res = insert k (res - {negate k})) \<and>
   (is_negation k \<longrightarrow> merge_add k res = insert k (res - {admit k})) \<and>
   (\<not> is_negation x \<longrightarrow> merge_schemas [[negate x], [x]] = {x})"
proof (intro conjI impI)
  show "merge_schemas args = fold merge_add (concat args) {}" by (rule merge_schemas_concat)
next
  assume "\<not> is_negation k"
  then show "merge_add k res = insert k (res - {negate k})" by (rule merge_add_plain)
next
  assume "is_negation k"
  then show "merge_add k res = insert k (res - {admit k})" by (rule merge_add_negated)
next
  assume "\<not> is_negation x"
  then show "merge_schemas [[negate x], [x]] = {x}"
    by (simp add: merge_schemas_def merge_add_def is_negation_negate admit_negate)
qed

theorem merge_schemas_priority_witness:
  "merge_add ''x'' {''-x'', ''y''} = {''x'', ''y''} \<and>
   merge_add ''-x'' {''x'', ''y''} = {''-x'', ''y''} \<and>
   merge_schemas [[''-x''], [''x'']] = {''x''} \<and>
   ''x'' \<in> merge_schemas [[''-x''], [''x'']] \<and> ''-x'' \<notin> merge_schemas [[''-x''], [''x'']]"
proof -
  have p: "\<not> is_negation ''x''" and n: "is_negation ''-x''"
    by (simp_all add: is_negation_def NEGATION_def)
  have 1: "merge_add ''x'' {''-x'', ''y''} = {''x'', ''y''}"
    using merge_schemas_priority [of "[]" "''x''" "{''-x'', ''y''}" "''x''"] p
    by (auto simp: negate_def NEGATION_def)
  have 2: "merge_add ''-x'' {''x'', ''y''} = {''-x'', ''y''}"
    using merge_schemas_priority [of "[]" "''-x''" "{''x'', ''y''}" "''x''"] n
    by (auto simp: admit_def NEGATION_def)
  have 3: "merge_schemas [[''-x''], [''x'']] = {''x''}"
    using merge_schemas_priority [of "[]" "''x''" "{}" "''x''"] p
    by (simp add: negate_def NEGATION_def)
  from 1 2 3 show ?thesis by simp
qed

lemma merge_add_keeps_plain_exclusive:
  assumes "\<forall>p. \<not> is_negation p \<longrightarrow> \<not> (p \<in> S \<and> negate p \<in> S)"
  shows "\<forall>p. \<not> is_negation p \<longrightarrow> \<not> (p \<in> merge_add k S \<and> negate p \<in> merge_add k S)"
proof (intro allI impI notI)
  fix p
  assume p: "\<not> is_negation p" and both: "p \<in> merge_add k S \<and> negate p \<in> merge_add k S"
  show False
  proof (cases "is_negation k")
    case True
    with both have 1: "p = k \<or> (p \<in> S \<and> p \<noteq> admit k)"
      and 2: "negate p = k \<or> (negate p \<in> S \<and> negate p \<noteq> admit k)"
      by (auto simp: merge_add_negated)
    from p True have "p \<noteq> k" by auto
    with 1 have pS: "p \<in> S" "p \<noteq> admit k" by auto
    from pS(2) have "negate p \<noteq> k" using admit_negate [of p] by auto
    with 2 have "negate p \<in> S" by auto
    with pS(1) p assms show False by auto
  next
    case False
    with both have 1: "p = k \<or> (p \<in> S \<and> p \<noteq> negate k)"
      and 2: "negate p = k \<or> (negate p \<in> S \<and> negate p \<noteq> negate k)"
      by (auto simp: merge_add_plain)
    from False have "negate p \<noteq> k" using is_negation_negate [of p] by auto
    with 2 have nS: "negate p \<in> S" "negate p \<noteq> negate k" by auto
    from nS(2) have "p \<noteq> k" by auto
    with 1 have "p \<in> S" by auto
    with nS(1) p assms show False by auto
  qed
qed

lemma fold_merge_add_plain_exclusive:
  assumes "\<forall>p. \<not> is_negation p \<longrightarrow> \<not> (p \<in> S \<and> negate p \<in> S)"
  shows "\<forall>p. \<not> is_negation p \<longrightarrow> \<not> (p \<in> fold merge_add ks S \<and> negate p \<in> fold merge_add ks S)"
  using assms
proof (induction ks arbitrary: S)
  case Nil
  then show ?case by simp
next
  case (Cons k ks)
  from Cons.IH [OF merge_add_keeps_plain_exclusive [OF Cons.prems]] show ?case by simp
qed

text \<open>
  Claim C9, as the code has it. The result of the merger never holds both a path string
  that does not start with the negation marker and the negated form of that string.
\<close>

theorem merge_schemas_plain_exclusive:
  "\<not> is_negation p \<Longrightarrow> \<not> (p \<in> merge_schemas args \<and> negate p \<in> merge_schemas args)"
  using fold_merge_add_plain_exclusive [of "{}" "concat args"]
  by (simp add: merge_schemas_concat)

theorem merge_schemas_plain_exclusive_witness:
  "\<not> is_negation ''x'' \<and>
   \<not> (''x'' \<in> merge_schemas [[''x'', ''-y''], [''-x'']] \<and>
      negate ''x'' \<in> merge_schemas [[''x'', ''-y''], [''-x'']])"
proof -
  have h: "\<not> is_negation ''x''" by (simp add: is_negation_def NEGATION_def)
  from merge_schemas_plain_exclusive [OF h, of "[[''x'', ''-y''], [''-x'']]"] h show ?thesis
    by simp
qed

text \<open>
  Claim C9 as stated fails for a path string that is itself a negation: adding \<open>-x\<close>
  takes \<open>x\<close> out and leaves \<open>--x\<close> in.
\<close>

theorem merge_schemas_both_polarities:
  "''-x'' \<in> merge_schemas [[''--x'', ''-x'']] \<and> negate ''-x'' \<in> merge_schemas [[''--x'', ''-x'']]"
  by (simp add: merge_schemas_def merge_add_def is_negation_def admit_def negate_def NEGATION_def)

section \<open>The visibility resolver\<close>

text \<open>
  Claim C4. \<open>is_valid\<close> decides in this order: the negated key stored with an empty
  list of tails excludes the key, whatever else the store holds; otherwise the wildcard
  as a key of the store includes it; otherwise the key itself in the store includes it;
  otherwise it is included exactly when the instance is greedy and the key does not start
  with an underscore.
\<close>

theorem is_valid_order:
  "is_valid kw keys k =
     (if keys (negate k) = Some [] then False
      else if keys WILDCARD \<noteq> None then True
      else if keys k \<noteq> None then True
      else is_greedy kw \<and> \<not> is_private k) \<and>
   negate k = CHR ''-'' # k \<and> WILDCARD = ''*'' \<and>
   (is_private k \<longleftrightarrow> (\<exists>t. k = CHR ''_'' # t))"
  by (cases k) (auto simp: is_valid_def has_key_def keys_get_def negate_def NEGATION_def
      WILDCARD_def is_private_def split: option.splits)

section \<open>The dispatch of \<^verbatim>\<open>__call__\<close>\<close>

lemma call_simple: "is_simple v \<Longrightarrow> call E kw keys v schema = (Inr v, keys)"
  by (cases v) (simp_all add: call.simps)

text \<open>
  Claim C10. A value of a simple type comes back unchanged, and the store with it;
  strings and byte strings are iterable, yet they are returned whole, not as the list of
  their characters, since the test for the simple types comes first.
\<close>

theorem call_simple_unchanged:
  "(is_simple v \<longrightarrow> call E kw keys v schema = (Inr v, keys)) \<and>
   is_Iterable (PStr s) \<and> call E kw keys (PStr s) schema = (Inr (PStr s), keys) \<and>
   is_Iterable (PBytes b) \<and> call E kw keys (PBytes b) schema = (Inr (PBytes b), keys)"
  by (simp add: call_simple)

theorem call_simple_unchanged_witness:
  "is_simple (PStr ''abc'') \<and>
   call (sample_env []) no_kwargs new_keys (PStr ''abc'') [''a''] =
     (Inr (PStr ''abc''), new_keys) \<and>
   fst (call (sample_env []) no_kwargs new_keys (PStr ''abc'') [''a'']) \<noteq>
     Inr (PList [PStr ''a'', PStr ''b'', PStr ''c''])"
  using call_simple_unchanged
    [of "PStr ''abc''" "sample_env []" no_kwargs new_keys "[''a'']" "''abc''" "[]"]
  by simp

lemma serialize_iter_simple:
  "\<forall>v\<in>set vs. is_simple v \<Longrightarrow>
   serialize_iter E kw keys vs res = (Inr (PList (res @ vs)), keys)"
  by (induction vs arbitrary: res) (simp_all add: call_simple)

text \<open>
  Claim C1 does not hold of the code: a dict is iterable, the test for
  \<^verbatim>\<open>Iterable\<close> comes before the test for \<^verbatim>\<open>dict\<close>, and every dict is serialized as
  the list of its keys; the schema is not loaded.
\<close>

theorem call_dict_as_iterable:
  "call E kw keys (PDict kvs) schema = (Inr (PList (map (\<lambda>kv. PStr (fst kv)) kvs)), keys)"
  by (simp add: call.simps serialize_iter_simple)

section \<open>Sub-schemas\<close>

lemma tails_nonempty_set_key: "tails_nonempty keys \<Longrightarrow> tails_nonempty (set_key k keys)"
  by (auto simp: tails_nonempty_def set_key_def Let_def split: option.splits if_splits)

lemma tails_nonempty_set_schema: "tails_nonempty keys \<Longrightarrow> tails_nonempty (set_schema keys ks)"
  unfolding set_schema_def
  by (induction ks arbitrary: keys) (simp_all add: tails_nonempty_set_key)

lemma negate_tails_nonempty:
  "[] \<notin> set ts \<Longrightarrow> negate_tails ts done = (True, done @ map (\<lambda>k. negate (hd k) # tl k) ts)"
  by (induction ts arbitrary: "done") auto

lemma get_sub_schema_no_raise:
  "tails_nonempty keys \<Longrightarrow> fst (get_sub_schema keys k) \<noteq> Inl e"
proof (cases "keys (negate k)")
  case None
  then show ?thesis by (simp add: get_sub_schema_def Let_def)
next
  case (Some ts)
  assume "tails_nonempty keys"
  with Some have "[] \<notin> set ts" by (auto simp: tails_nonempty_def)
  with Some show ?thesis by (simp add: get_sub_schema_def Let_def negate_tails_nonempty)
qed











section \<open>\<^verbatim>\<open>IsNotSerializable\<close>\<close>

lemma call_unrecognized:
  "\<not> recognized v \<Longrightarrow> call E kw keys v schema = (Inl IsNotSerializable, keys)"
  by (simp add: call.simps recognized_def resolve_def Let_def)

lemma serialize_iter_not_INS:
  "fst (serialize_iter E kw keys vs res) \<noteq> Inl IsNotSerializable"
proof (induction vs arbitrary: keys res)
  case Nil
  show ?case by simp
next
  case (Cons v vs)
  obtain o' k' where c: "call E kw keys v [] = (o', k')" by (cases "call E kw keys v []")
  show ?case
  proof (cases o')
    case (Inl e)
    with c Cons show ?thesis by (cases e) simp_all
  next
    case (Inr r)
    with c Cons show ?thesis by simp
  qed
qed

lemma call_recognized_not_model:
  assumes "recognized v" "\<not> is_SerializerMixin (resolve v)"
  shows "fst (call E kw keys v schema) \<noteq> Inl IsNotSerializable"
proof -
  have d: "is_dict (resolve v) \<Longrightarrow> is_Iterable (resolve v)" by (cases "resolve v") simp_all
  show ?thesis
  proof (cases "is_simple (resolve v)")
    case True
    then show ?thesis by (simp add: call.simps resolve_def Let_def)
  next
    case ns: False
    show ?thesis
    proof (cases "is_datetime (resolve v)")
      case True
      with ns show ?thesis by (simp add: call.simps resolve_def Let_def)
    next
      case nd: False
      show ?thesis
      proof (cases "is_date (resolve v)")
        case True
        with ns nd show ?thesis by (simp add: call.simps resolve_def Let_def)
      next
        case ndd: False
        from assms ns nd ndd d have "is_Iterable (resolve v)"
          by (auto simp: recognized_def Let_def)
        with ns nd ndd show ?thesis
          using serialize_iter_not_INS [of E kw keys "iter_elems (resolve v)" "[]"]
          by (simp add: call.simps resolve_def Let_def)
      qed
    qed
  qed
qed

lemma get_sub_schema_error: "fst (get_sub_schema keys k) = Inl e \<Longrightarrow> e = ExcludedKey"
  by (auto simp: get_sub_schema_def Let_def split: option.splits prod.splits bool.splits)

lemma fork_simple: "is_simple x \<Longrightarrow> fork E kw keys k x = (Inr x, keys)"
  by (simp add: fork.simps)

lemma fork_not_simple:
  "\<not> is_simple x \<Longrightarrow>
   fork E kw keys k x =
     (case get_sub_schema keys k of
        (Inl e, keys') \<Rightarrow> (Inl e, keys')
      | (Inr sub, keys') \<Rightarrow> (fst (call E kw Map.empty x sub), keys'))"
  by (simp add: fork.simps)

lemma fork_INS:
  assumes "fst (fork E kw keys k x) = Inl IsNotSerializable"
  shows "\<not> is_simple x \<and> (\<exists>sub. fst (call E kw Map.empty x sub) = Inl IsNotSerializable)"
proof -
  have ns: "\<not> is_simple x"
  proof
    assume "is_simple x"
    then have "fst (fork E kw keys k x) = Inr x" by (simp add: fork_simple)
    with assms show False by simp
  qed
  obtain o' k' where g: "get_sub_schema keys k = (o', k')" by (cases "get_sub_schema keys k")
  show ?thesis
  proof (cases o')
    case (Inl e)
    with g have "fst (get_sub_schema keys k) = Inl e" by simp
    then have "e = ExcludedKey" by (rule get_sub_schema_error)
    moreover from Inl g ns have "fst (fork E kw keys k x) = Inl e" by (simp add: fork_not_simple)
    ultimately show ?thesis using assms by simp
  next
    case (Inr sub)
    with g ns have "fst (fork E kw keys k x) = fst (call E kw Map.empty x sub)"
      by (simp add: fork_not_simple)
    with assms ns show ?thesis by metis
  qed
qed

lemma serialize_model_skip:
  "\<not> is_valid kw keys k \<Longrightarrow>
   serialize_model E kw keys ((k, x) # kvs) res = serialize_model E kw keys kvs res"
  by simp

lemma serialize_model_fail:
  "is_valid kw keys k \<Longrightarrow> fork E kw keys k x = (Inl e, keys') \<Longrightarrow>
   serialize_model E kw keys ((k, x) # kvs) res = (Inl e, keys')"
  by simp

lemma serialize_model_step:
  "is_valid kw keys k \<Longrightarrow> fork E kw keys k x = (Inr r, keys') \<Longrightarrow>
   serialize_model E kw keys ((k, x) # kvs) res =
     serialize_model E kw keys' kvs (dict_set res k r)"
  by simp

lemma serialize_model_error:
  "fst (serialize_model E kw keys kvs res) = Inl e \<Longrightarrow>
   \<exists>k x keys'. (k, x) \<in> set kvs \<and> fst (fork E kw keys' k x) = Inl e"
proof (induction kvs arbitrary: keys res)
  case Nil
  then show ?case by simp
next
  case (Cons kv kvs)
  obtain k x where kv: "kv = (k, x)" by (cases kv)
  show ?case
  proof (cases "is_valid kw keys k")
    case False
    from Cons.prems have "fst (serialize_model E kw keys kvs res) = Inl e"
      unfolding kv by (simp only: serialize_model_skip [OF False])
    from Cons.IH [OF this] obtain k1 x1 keys1 where
      "(k1, x1) \<in> set kvs" "fst (fork E kw keys1 k1 x1) = Inl e" by blast
    then have "(k1, x1) \<in> set (kv # kvs)" by simp
    with \<open>fst (fork E kw keys1 k1 x1) = Inl e\<close> show ?thesis by blast
  next
    case True
    obtain o' k' where f: "fork E kw keys k x = (o', k')" by (cases "fork E kw keys k x")
    show ?thesis
    proof (cases o')
      case (Inl e')
      with f True have "serialize_model E kw keys ((k, x) # kvs) res = (Inl e', k')"
        by (simp only: serialize_model_fail)
      with Cons.prems kv have "e' = e" by simp
      with Inl f have "fst (fork E kw keys k x) = Inl e" by simp
      moreover have "(k, x) \<in> set (kv # kvs)" by (simp add: kv)
      ultimately show ?thesis by blast
    next
      case (Inr r)
      with f True have "serialize_model E kw keys ((k, x) # kvs) res =
          serialize_model E kw k' kvs (dict_set res k r)"
        by (simp only: serialize_model_step)
      with Cons.prems kv
      have "fst (serialize_model E kw k' kvs (dict_set res k r)) = Inl e" by simp
      from Cons.IH [OF this] obtain k1 x1 keys1 where
        "(k1, x1) \<in> set kvs" "fst (fork E kw keys1 k1 x1) = Inl e" by blast
      then have "(k1, x1) \<in> set (kv # kvs)" by simp
      with \<open>fst (fork E kw keys1 k1 x1) = Inl e\<close> show ?thesis by blast
    qed
  qed
qed

lemma call_model_INS:
  assumes "is_SerializerMixin (resolve v)" "fst (call E kw keys v schema) = Inl IsNotSerializable"
  shows "\<exists>k x sub. (k, x) \<in> set (model_attrs (resolve v)) \<and> \<not> is_simple x \<and>
           fst (call E kw new_keys x sub) = Inl IsNotSerializable"
proof -
  from assms(1) have "\<not> is_simple (resolve v)" "\<not> is_datetime (resolve v)" "\<not> is_date (resolve v)"
    "\<not> is_Iterable (resolve v)" by (cases "resolve v"; simp)+
  with assms have "fst (serialize_model E kw
          (set_schema keys (iter_set E (merge_schemas [schema_of (resolve v), schema])))
          (model_attrs (resolve v)) []) = Inl IsNotSerializable"
    by (simp add: call.simps resolve_def Let_def)
  from serialize_model_error [OF this] obtain k x keys' where
    "(k, x) \<in> set (model_attrs (resolve v))" "fst (fork E kw keys' k x) = Inl IsNotSerializable"
    by blast
  with fork_INS [of E kw keys' k x] show ?thesis by (auto simp: new_keys_def)
qed

lemma serialize_iter_outcomes:
  "Inl ExcludedKey \<notin> set (iter_outcomes E kw keys vs) \<Longrightarrow>
   fst (serialize_iter E kw keys vs res) = Inr (PList (res @ kept (iter_outcomes E kw keys vs)))"
proof (induction vs arbitrary: keys res)
  case Nil
  show ?case by simp
next
  case (Cons v vs)
  obtain o' k' where c: "call E kw keys v [] = (o', k')" by (cases "call E kw keys v []")
  show ?case
  proof (cases o')
    case (Inl e)
    with c Cons.prems have "e = IsNotSerializable" by (cases e) simp_all
    with Inl c Cons show ?thesis by simp
  next
    case (Inr r)
    with c Cons show ?thesis by simp
  qed
qed

lemma length_iter_outcomes: "length (iter_outcomes E kw keys vs) = length vs"
  by (induction vs arbitrary: keys) simp_all

lemma serialize_model_propagates:
  "is_valid kw keys k \<Longrightarrow> fst (fork E kw keys k x) = Inl e \<Longrightarrow>
   fst (serialize_model E kw keys ((k, x) # kvs) res) = Inl e"
  using serialize_model_fail [of kw keys k E x e "snd (fork E kw keys k x)" kvs res]
  by (cases "fork E kw keys k x") simp

text \<open>
  The loop over the fields, cut at any field: once the fields before it are done, the
  loop goes on from the store and the dict they left.
\<close>

lemma serialize_model_append:
  "serialize_model E kw keys pre res = (Inr (PDict res'), keys') \<Longrightarrow>
   serialize_model E kw keys (pre @ post) res = serialize_model E kw keys' post res'"
proof (induction pre arbitrary: keys res)
  case Nil
  then show ?case by simp
next
  case (Cons jy pre)
  obtain j y where jy: "jy = (j, y)" by (cases jy)
  show ?case
  proof (cases "is_valid kw keys j")
    case False
    with Cons.prems jy have "serialize_model E kw keys pre res = (Inr (PDict res'), keys')"
      by (simp add: serialize_model_skip)
    from Cons.IH [OF this] False jy show ?thesis by (simp add: serialize_model_skip)
  next
    case True
    obtain o' k' where f: "fork E kw keys j y = (o', k')" by (cases "fork E kw keys j y")
    show ?thesis
    proof (cases o')
      case (Inl e)
      with f True have "serialize_model E kw keys ((j, y) # pre) res = (Inl e, k')"
        by (simp add: serialize_model_fail)
      with Cons.prems jy show ?thesis by simp
    next
      case (Inr r)
      with f True have s: "\<And>kvs. serialize_model E kw keys ((j, y) # kvs) res =
          serialize_model E kw k' kvs (dict_set res j r)"
        by (simp add: serialize_model_step)
      with Cons.prems jy
      have "serialize_model E kw k' pre (dict_set res j r) = (Inr (PDict res'), keys')"
        by simp
      from Cons.IH [OF this] s [of "pre @ post"] jy show ?thesis by simp
    qed
  qed
qed

lemma fork_propagates:
  "\<not> is_simple x \<Longrightarrow> fst (get_sub_schema keys k) = Inr sub \<Longrightarrow>
   fst (call E kw new_keys x sub) = Inl e \<Longrightarrow> fst (fork E kw keys k x) = Inl e"
  by (cases "get_sub_schema keys k") (simp add: fork_not_simple new_keys_def)

lemma call_model:
  "call E kw keys (PModel s kvs) schema =
     serialize_model E kw (set_schema keys (iter_set E (merge_schemas [s, schema]))) kvs []"
  by (simp add: call.simps)

lemma call_model_propagates:
  assumes "call E kw keys (PModel s pre) schema = (Inr (PDict res'), keys')"
    and "is_valid kw keys' k" and "fst (fork E kw keys' k x) = Inl e"
  shows "fst (call E kw keys (PModel s (pre @ (k, x) # post)) schema) = Inl e"
proof -
  let ?K = "set_schema keys (iter_set E (merge_schemas [s, schema]))"
  from assms(1) have "serialize_model E kw ?K pre [] = (Inr (PDict res'), keys')"
    by (simp only: call_model)
  then have "serialize_model E kw ?K (pre @ (k, x) # post) [] =
      serialize_model E kw keys' ((k, x) # post) res'"
    by (rule serialize_model_append)
  moreover have "fst (serialize_model E kw keys' ((k, x) # post) res') = Inl e"
    using assms(2,3) by (rule serialize_model_propagates)
  ultimately show ?thesis by (simp only: call_model)
qed

lemma call_list: "call E kw keys (PList vs) schema = serialize_iter E kw keys vs []"
  by (simp add: call.simps)

text \<open>
  Claim C8. \<open>call\<close> raises \<^verbatim>\<open>IsNotSerializable\<close> itself exactly on a value of no known
  category; on a value of a known category the exception can only come up from a field
  of a serializable object. Inside an iterable the exception of an element is caught:
  the result is the list of the results of the other elements, in order. From a field
  it goes up through \<open>fork\<close> and the loop over the fields to the caller, whichever
  field of the object it is: when the fields before it have been serialized, the
  exception of the field is the outcome of the whole object.
\<close>

theorem not_serializable_contract:
  "(\<not> recognized v \<longrightarrow> call E kw keys v schema = (Inl IsNotSerializable, keys)) \<and>
   (recognized v \<and> \<not> is_SerializerMixin (resolve v) \<longrightarrow>
      fst (call E kw keys v schema) \<noteq> Inl IsNotSerializable) \<and>
   (is_SerializerMixin (resolve v) \<and> fst (call E kw keys v schema) = Inl IsNotSerializable \<longrightarrow>
      (\<exists>k x sub. (k, x) \<in> set (model_attrs (resolve v)) \<and> \<not> is_simple x \<and>
         fst (call E kw new_keys x sub) = Inl IsNotSerializable)) \<and>
   (Inl ExcludedKey \<notin> set (iter_outcomes E kw keys vs) \<longrightarrow>
      fst (call E kw keys (PList vs) schema) = Inr (PList (kept (iter_outcomes E kw keys vs)))) \<and>
   length (iter_outcomes E kw keys vs) = length vs \<and>
   (call E kw keys (PModel s pre) schema = (Inr (PDict res'), keys') \<and>
    is_valid kw keys' k \<and> fst (fork E kw keys' k x) = Inl e \<longrightarrow>
      fst (call E kw keys (PModel s (pre @ (k, x) # post)) schema) = Inl e) \<and>
   (\<not> is_simple x \<and> fst (get_sub_schema keys k) = Inr sub \<and>
    fst (call E kw new_keys x sub) = Inl e \<longrightarrow>
      fst (fork E kw keys k x) = Inl e)"
proof (intro conjI impI)
  assume "\<not> recognized v"
  then show "call E kw keys v schema = (Inl IsNotSerializable, keys)" by (rule call_unrecognized)
next
  assume "recognized v \<and> \<not> is_SerializerMixin (resolve v)"
  then show "fst (call E kw keys v schema) \<noteq> Inl IsNotSerializable"
    using call_recognized_not_model by blast
next
  assume "is_SerializerMixin (resolve v) \<and> fst (call E kw keys v schema) = Inl IsNotSerializable"
  then show "\<exists>k x sub. (k, x) \<in> set (model_attrs (resolve v)) \<and> \<not> is_simple x \<and>
         fst (call E kw new_keys x sub) = Inl IsNotSerializable"
    using call_model_INS by blast
next
  assume "Inl ExcludedKey \<notin> set (iter_outcomes E kw keys vs)"
  then show "fst (call E kw keys (PList vs) schema) =
      Inr (PList (kept (iter_outcomes E kw keys vs)))"
    using serialize_iter_outcomes [of E kw keys vs "[]"] by (simp add: call_list)
next
  show "length (iter_outcomes E kw keys vs) = length vs" by (rule length_iter_outcomes)
next
  assume "call E kw keys (PModel s pre) schema = (Inr (PDict res'), keys') \<and>
    is_valid kw keys' k \<and> fst (fork E kw keys' k x) = Inl e"
  then show "fst (call E kw keys (PModel s (pre @ (k, x) # post)) schema) = Inl e"
    using call_model_propagates by blast
next
  assume "\<not> is_simple x \<and> fst (get_sub_schema keys k) = Inr sub \<and>
    fst (call E kw new_keys x sub) = Inl e"
  then show "fst (fork E kw keys k x) = Inl e"
    using fork_propagates by blast
qed

lemma sample_iter_set_empty: "iter_set (sample_env []) S = []"
  by (simp add: sample_env_def)

lemma merge_schemas_empty: "merge_schemas [[], []] = {}"
  by (simp add: merge_schemas_def)

lemma set_schema_Nil: "set_schema keys [] = keys"
  by (simp add: set_schema_def)

lemma get_sub_schema_new: "get_sub_schema new_keys k = (Inr [], new_keys)"
  by (simp add: get_sub_schema_def new_keys_def keys_get_def)

lemma is_valid_new_f: "is_valid no_kwargs new_keys ''f''"
  by (simp add: is_valid_def has_key_def new_keys_def is_greedy_def no_kwargs_def is_private_def)

lemma is_valid_new_a: "is_valid no_kwargs new_keys ''a''"
  by (simp add: is_valid_def has_key_def new_keys_def is_greedy_def no_kwargs_def is_private_def)

lemma call_first_field:
  "call (sample_env []) no_kwargs new_keys (PModel [] [(''a'', PInt 1)]) [] =
     (Inr (PDict [(''a'', PInt 1)]), new_keys)"
  by (simp add: call_model sample_iter_set_empty set_schema_Nil is_valid_new_a fork_simple)

theorem not_serializable_contract_witness:
  "\<not> recognized (PObject 0) \<and>
   call (sample_env []) no_kwargs new_keys (PObject 0) [] = (Inl IsNotSerializable, new_keys) \<and>
   fst (call (sample_env []) no_kwargs new_keys (PList [PInt 1, PObject 0, PStr ''x'']) []) =
     Inr (PList [PInt 1, PStr ''x'']) \<and>
   call (sample_env []) no_kwargs new_keys (PModel [] [(''a'', PInt 1)]) [] =
     (Inr (PDict [(''a'', PInt 1)]), new_keys) \<and>
   fst (call (sample_env []) no_kwargs new_keys
          (PModel [] [(''a'', PInt 1), (''f'', PObject 0), (''z'', PInt 2)]) []) =
     Inl IsNotSerializable"
proof -
  let ?E = "sample_env []"
  let ?vs = "[PInt 1, PObject 0, PStr ''x'']"
  note T = not_serializable_contract
    [where v = "PObject 0" and E = ?E and kw = no_kwargs and keys = new_keys
       and schema = "[]" and vs = ?vs and s = "[]" and pre = "[(''a'', PInt 1)]"
       and res' = "[(''a'', PInt 1)]" and keys' = new_keys and k = "''f''"
       and x = "PObject 0" and e = IsNotSerializable and post = "[(''z'', PInt 2)]"
       and sub = "[]"]
  have u: "\<not> recognized (PObject 0)" by (simp add: recognized_def resolve_def)
  from T u have c:
    "call ?E no_kwargs new_keys (PObject 0) [] = (Inl IsNotSerializable, new_keys)"
    by blast
  have o: "iter_outcomes ?E no_kwargs new_keys ?vs =
      [Inr (PInt 1), Inl IsNotSerializable, Inr (PStr ''x'')]"
    by (simp add: c call_simple)
  from T have "Inl ExcludedKey \<notin> set (iter_outcomes ?E no_kwargs new_keys ?vs) \<longrightarrow>
      fst (call ?E no_kwargs new_keys (PList ?vs) []) =
      Inr (PList (kept (iter_outcomes ?E no_kwargs new_keys ?vs)))"
    by blast
  then have l: "fst (call ?E no_kwargs new_keys (PList ?vs) []) =
      Inr (PList [PInt 1, PStr ''x''])"
    unfolding o by simp
  from T have "\<not> is_simple (PObject 0) \<and> fst (get_sub_schema new_keys ''f'') = Inr [] \<and>
      fst (call ?E no_kwargs new_keys (PObject 0) []) = Inl IsNotSerializable \<longrightarrow>
      fst (fork ?E no_kwargs new_keys ''f'' (PObject 0)) = Inl IsNotSerializable"
    by blast
  with c have f: "fst (fork ?E no_kwargs new_keys ''f'' (PObject 0)) = Inl IsNotSerializable"
    by (simp add: get_sub_schema_new)
  from T have "call ?E no_kwargs new_keys (PModel [] [(''a'', PInt 1)]) [] =
        (Inr (PDict [(''a'', PInt 1)]), new_keys) \<and>
      is_valid no_kwargs new_keys ''f'' \<and>
      fst (fork ?E no_kwargs new_keys ''f'' (PObject 0)) = Inl IsNotSerializable \<longrightarrow>
      fst (call ?E no_kwargs new_keys
             (PModel [] ([(''a'', PInt 1)] @ (''f'', PObject 0) # [(''z'', PInt 2)])) []) =
        Inl IsNotSerializable"
    by blast
  with call_first_field f is_valid_new_f
  have m: "fst (call ?E no_kwargs new_keys
             (PModel [] ([(''a'', PInt 1)] @ (''f'', PObject 0) # [(''z'', PInt 2)])) []) =
        Inl IsNotSerializable"
    by blast
  then have m': "fst (call ?E no_kwargs new_keys
          (PModel [] [(''a'', PInt 1), (''f'', PObject 0), (''z'', PInt 2)]) []) =
     Inl IsNotSerializable"
    by simp
  from u c l call_first_field m' show ?thesis by blast
qed

section \<open>The store of an instance\<close>

text \<open>
  No store that the engine builds holds an empty tail, so the exception of
  \<^verbatim>\<open>_get_sub_schema\<close> never comes out of a call.
\<close>

lemma tails_nonempty_empty: "tails_nonempty Map.empty"
  by (simp add: tails_nonempty_def)

lemma get_sub_schema_sound:
  assumes "tails_nonempty keys"
  shows "\<exists>sub keys'. get_sub_schema keys k = (Inr sub, keys') \<and> tails_nonempty keys'"
proof (cases "keys (negate k)")
  case None
  with assms show ?thesis by (simp add: get_sub_schema_def Let_def)
next
  case (Some ts)
  with assms have ne: "[] \<notin> set ts" by (auto simp: tails_nonempty_def)
  have "tails_nonempty (keys(negate k \<mapsto> map (\<lambda>t. negate (hd t) # tl t) ts))"
    using assms by (auto simp: tails_nonempty_def)
  with Some ne show ?thesis
    by (simp add: get_sub_schema_def Let_def negate_tails_nonempty)
qed

lemma call_resolve:
  "call E kw keys v schema =
     (let value = resolve v in
      if is_simple value then (Inr value, keys)
      else if is_datetime value then (Inr (serialize_datetime E kw value), keys)
      else if is_date value then (Inr (serialize_date E kw value), keys)
      else if is_Iterable value then serialize_iter E kw keys (iter_elems value) []
      else if is_SerializerMixin value then
        serialize_model E kw
          (set_schema keys (iter_set E (merge_schemas [schema_of value, schema])))
          (model_attrs value) []
      else if is_dict value then
        serialize_dict E kw (set_schema keys schema) (dict_items value) []
      else (Inl IsNotSerializable, keys))"
  by (subst call.simps) (simp only: resolve_def)

lemma mixin_shape:
  "is_SerializerMixin x \<Longrightarrow>
   \<not> is_simple x \<and> \<not> is_datetime x \<and> \<not> is_date x \<and> \<not> is_Iterable x"
  by (cases x) simp_all

lemma dict_shape: "is_dict x \<Longrightarrow> is_Iterable x"
  by (cases x) simp_all

lemma call_leaf:
  "is_simple (resolve v) \<or> is_datetime (resolve v) \<or> is_date (resolve v) \<Longrightarrow>
   snd (call E kw keys v schema) = keys \<and> (\<exists>r. fst (call E kw keys v schema) = Inr r)"
proof -
  assume "is_simple (resolve v) \<or> is_datetime (resolve v) \<or> is_date (resolve v)"
  then consider (s) "is_simple (resolve v)"
    | (dt) "\<not> is_simple (resolve v)" "is_datetime (resolve v)"
    | (d) "\<not> is_simple (resolve v)" "\<not> is_datetime (resolve v)" "is_date (resolve v)"
    by blast
  then show ?thesis by cases (simp_all add: call_resolve Let_def)
qed

lemma call_iterable:
  "\<not> is_simple (resolve v) \<Longrightarrow> \<not> is_datetime (resolve v) \<Longrightarrow> \<not> is_date (resolve v) \<Longrightarrow>
   is_Iterable (resolve v) \<Longrightarrow>
   call E kw keys v schema = serialize_iter E kw keys (iter_elems (resolve v)) []"
  by (simp add: call_resolve Let_def)

lemma call_mixin:
  "is_SerializerMixin (resolve v) \<Longrightarrow>
   call E kw keys v schema =
     serialize_model E kw
       (set_schema keys (iter_set E (merge_schemas [schema_of (resolve v), schema])))
       (model_attrs (resolve v)) []"
  using mixin_shape [of "resolve v"] by (simp add: call_resolve Let_def)

lemma call_none:
  "\<not> is_simple (resolve v) \<Longrightarrow> \<not> is_datetime (resolve v) \<Longrightarrow> \<not> is_date (resolve v) \<Longrightarrow>
   \<not> is_Iterable (resolve v) \<Longrightarrow> \<not> is_SerializerMixin (resolve v) \<Longrightarrow>
   call E kw keys v schema = (Inl IsNotSerializable, keys)"
  using dict_shape [of "resolve v"] by (auto simp: call_resolve Let_def)

lemma shape_cases:
  obtains (leaf) "is_simple v \<or> is_datetime v \<or> is_date v"
  | (iter) "\<not> is_simple v" "\<not> is_datetime v" "\<not> is_date v" "is_Iterable v"
  | (model) "\<not> is_simple v" "\<not> is_datetime v" "\<not> is_date v" "\<not> is_Iterable v"
      "is_SerializerMixin v"
  | (none) "\<not> is_simple v" "\<not> is_datetime v" "\<not> is_date v" "\<not> is_Iterable v"
      "\<not> is_SerializerMixin v"
  by blast

lemma engine_sound:
  "(tails_nonempty keys \<longrightarrow> sound_result (call E kw keys v schema))"
  "(tails_nonempty keys \<longrightarrow> sound_result (serialize_iter E kw keys vs res))"
  "(tails_nonempty keys \<longrightarrow> sound_result (serialize_dict E kw keys kvs dres))"
  "(tails_nonempty keys \<longrightarrow> sound_result (serialize_model E kw keys kvs dres))"
  "(tails_nonempty keys \<longrightarrow> sound_result (fork E kw keys k x))"
proof (induction E kw keys v schema and E kw keys vs res and E kw keys kvs dres
    and E kw keys kvs dres and E kw keys k x
    rule: call_serialize_iter_serialize_dict_serialize_model_fork.induct)
  case (1 E kw keys value0 schema)
  define x where "x = resolve value0"
  have x: "x = (if callable value0 then call_value value0 else value0)"
    by (simp add: x_def resolve_def)
  show ?case
  proof
    assume t: "tails_nonempty keys"
    show "sound_result (call E kw keys value0 schema)"
    proof (cases x rule: shape_cases)
      case leaf
      with call_leaf [of value0 E kw keys schema] t show ?thesis
        unfolding x_def sound_result_def by auto
    next
      case iter
      from "1.IH"(1) [OF x iter] t
      have "sound_result (serialize_iter E kw keys (iter_elems x) [])" by simp
      with iter call_iterable [of value0 E kw keys schema] show ?thesis
        unfolding x_def by simp
    next
      case model
      have "tails_nonempty (set_schema keys (iter_set E (merge_schemas [schema_of x, schema])))"
        using t by (rule tails_nonempty_set_schema)
      with "1.IH"(2) [OF x model]
      have "sound_result (serialize_model E kw
          (set_schema keys (iter_set E (merge_schemas [schema_of x, schema])))
          (model_attrs x) [])" by simp
      with model call_mixin [of value0 E kw keys schema] show ?thesis
        unfolding x_def by simp
    next
      case none
      with call_none [of value0 E kw keys schema] t show ?thesis
        unfolding x_def sound_result_def by simp
    qed
  qed
next
  case (2 E kw keys res)
  show ?case by (simp add: sound_result_def)
next
  case (3 E kw keys v vs res)
  show ?case
  proof
    assume t: "tails_nonempty keys"
    obtain o' k' where c: "call E kw keys v [] = (o', k')" by (cases "call E kw keys v []")
    from "3.IH"(1) t c have s: "o' \<noteq> Inl ExcludedKey" "tails_nonempty k'"
      by (simp_all add: sound_result_def)
    show "sound_result (serialize_iter E kw keys (v # vs) res)"
    proof (cases o')
      case (Inl e)
      with s have e: "e = IsNotSerializable" by (cases e) simp_all
      from "3.IH"(2) [OF c [symmetric] Inl e] s
      have "sound_result (serialize_iter E kw k' vs res)" by simp
      with c Inl e show ?thesis by simp
    next
      case (Inr r)
      from "3.IH"(3) [OF c [symmetric] Inr] s
      have "sound_result (serialize_iter E kw k' vs (res @ [r]))" by simp
      with c Inr show ?thesis by simp
    qed
  qed
next
  case (4 E kw keys res)
  show ?case by (simp add: sound_result_def)
next
  case (5 E kw keys k v kvs res)
  show ?case
  proof
    assume t: "tails_nonempty keys"
    show "sound_result (serialize_dict E kw keys ((k, v) # kvs) res)"
    proof (cases "is_valid kw keys k")
      case False
      with "5.IH"(3) t show ?thesis by simp
    next
      case True
      obtain o' k' where f: "fork E kw keys k v = (o', k')" by (cases "fork E kw keys k v")
      from "5.IH"(1) [OF True] t f have s: "o' \<noteq> Inl ExcludedKey" "tails_nonempty k'"
        by (simp_all add: sound_result_def)
      show ?thesis
      proof (cases o')
        case (Inl e)
        with s f True show ?thesis by (simp add: sound_result_def)
      next
        case (Inr r)
        from "5.IH"(2) [OF True f [symmetric] Inr] s
        have "sound_result (serialize_dict E kw k' kvs (dict_set res k r))" by simp
        with f Inr True show ?thesis by simp
      qed
    qed
  qed
next
  case (6 E kw keys res)
  show ?case by (simp add: sound_result_def)
next
  case (7 E kw keys k v kvs res)
  show ?case
  proof
    assume t: "tails_nonempty keys"
    show "sound_result (serialize_model E kw keys ((k, v) # kvs) res)"
    proof (cases "is_valid kw keys k")
      case False
      with "7.IH"(3) t show ?thesis by simp
    next
      case True
      obtain o' k' where f: "fork E kw keys k v = (o', k')" by (cases "fork E kw keys k v")
      from "7.IH"(1) [OF True] t f have s: "o' \<noteq> Inl ExcludedKey" "tails_nonempty k'"
        by (simp_all add: sound_result_def)
      show ?thesis
      proof (cases o')
        case (Inl e)
        with s f True show ?thesis by (simp add: sound_result_def)
      next
        case (Inr r)
        from "7.IH"(2) [OF True f [symmetric] Inr] s
        have "sound_result (serialize_model E kw k' kvs (dict_set res k r))" by simp
        with f Inr True show ?thesis by simp
      qed
    qed
  qed
next
  case (8 E kw keys key "value")
  show ?case
  proof
    assume t: "tails_nonempty keys"
    show "sound_result (fork E kw keys key value)"
    proof (cases "is_simple value")
      case True
      with t show ?thesis by (simp add: fork.simps sound_result_def)
    next
      case False
      from get_sub_schema_sound [OF t, of key] obtain sub keys' where
        g: "get_sub_schema keys key = (Inr sub, keys')" and t': "tails_nonempty keys'" by blast
      from "8.IH" [OF False g [symmetric] refl] tails_nonempty_empty
      have "sound_result (call E kw Map.empty value sub)" by simp
      with False g t' show ?thesis by (simp add: fork.simps sound_result_def)
    qed
  qed
qed

text \<open>
  \<open>get_sub_schema\<close> writes into the tails kept under the negated key
  (\<^verbatim>\<open>k[0] = self._negate(k[0])\<close> on the list objects of the store): the store changes
  after the loading, and a second call for the same key returns another sub-schema.
\<close>

lemma get_sub_schema_rewrites_store:
  "set_schema new_keys [''-a.x''] = new_keys(''-a'' \<mapsto> [[''x'']]) \<and>
   get_sub_schema (new_keys(''-a'' \<mapsto> [[''x'']])) ''a'' =
     (Inr [''-x''], new_keys(''-a'' \<mapsto> [[''-x'']])) \<and>
   get_sub_schema (new_keys(''-a'' \<mapsto> [[''-x'']])) ''a'' =
     (Inr [''--x''], new_keys(''-a'' \<mapsto> [[''--x'']]))"
  by (simp add: set_schema_def set_key_def get_sub_schema_def Let_def DELIM_def
      new_keys_def keys_get_def negate_def NEGATION_def)

text \<open>
  Claim C2 does not hold of the code. An object with the default schema \<^verbatim>\<open>('-a.x',)\<close>
  and a field \<^verbatim>\<open>a\<close>: the loading puts the tail \<^verbatim>\<open>['x']\<close> under \<^verbatim>\<open>-a\<close>, and after the call
  the store holds \<^verbatim>\<open>['-x']\<close> there, rewritten by \<open>get_sub_schema\<close>. A list of two
  objects, the first with the default schema \<^verbatim>\<open>('-id',)\<close>: the instance loads a schema
  at each element into the same store, and the second object, which alone is serialized
  with its \<^verbatim>\<open>id\<close>, loses it after the first.
\<close>

theorem store_changed_after_loading:
  "set_schema new_keys (iter_set (sample_env [''-a.x'']) (merge_schemas [[''-a.x''], []])) ''-a'' =
     Some [[''x'']] \<and>
   snd (call (sample_env [''-a.x'']) no_kwargs new_keys
          (PModel [''-a.x''] [(''a'', PModel [] [(''x'', PInt 1)])]) []) ''-a'' =
     Some [[''-x'']] \<and>
   fst (call (sample_env [''-id'']) no_kwargs new_keys (PModel [] [(''id'', PInt 2)]) []) =
     Inr (PDict [(''id'', PInt 2)]) \<and>
   fst (call (sample_env [''-id'']) no_kwargs new_keys
          (PList [PModel [''-id''] [(''id'', PInt 1)], PModel [] [(''id'', PInt 2)]]) []) =
     Inr (PList [PDict [], PDict []])"
  by code_simp

section \<open>Dotted schemas\<close>

lemma set_key_other:
  "hd (split_delim p) \<noteq> h \<Longrightarrow> set_key p keys h = keys h"
  by (simp add: set_key_def Let_def split: option.splits)

lemma set_key_same:
  "hd (split_delim p) = h \<Longrightarrow>
   set_key p keys h =
     Some ((case keys h of None \<Rightarrow> [] | Some ts \<Rightarrow> ts) @
           (if tl (split_delim p) \<noteq> [] then [tl (split_delim p)] else []))"
  by (simp add: set_key_def Let_def split: option.splits)

lemma stored_tails_Cons_other:
  "hd (split_delim p) \<noteq> h \<Longrightarrow> stored_tails h (p # ks) = stored_tails h ks"
  by (simp add: stored_tails_def)

lemma stored_tails_Cons_same:
  "hd (split_delim p) = h \<Longrightarrow>
   stored_tails h (p # ks) =
     (if tl (split_delim p) \<noteq> [] then tl (split_delim p) # stored_tails h ks
      else stored_tails h ks)"
  by (simp add: stored_tails_def)

lemma set_schema_lookup:
  "set_schema keys ks h =
     (case keys h of
        Some ts \<Rightarrow> Some (ts @ stored_tails h ks)
      | None \<Rightarrow> (if \<exists>p\<in>set ks. hd (split_delim p) = h then Some (stored_tails h ks) else None))"
proof (induction ks arbitrary: keys)
  case Nil
  show ?case by (simp add: set_schema_def stored_tails_def split: option.splits)
next
  case (Cons p ks)
  have step: "set_schema keys (p # ks) = set_schema (set_key p keys) ks"
    by (simp add: set_schema_def)
  show ?case
  proof (cases "hd (split_delim p) = h")
    case False
    then show ?thesis
      unfolding step Cons.IH [of "set_key p keys"]
      by (simp add: set_key_other stored_tails_Cons_other split: option.splits)
  next
    case True
    then show ?thesis
      unfolding step Cons.IH [of "set_key p keys"]
      by (auto simp: set_key_same stored_tails_Cons_same split: option.splits)
  qed
qed

lemma map_of_dict_set:
  "map_of (dict_set res k r) k' = (if k' = k then Some r else map_of res k')"
  by (induction res k r rule: dict_set.induct) auto

lemma get_sub_schema_frame:
  "keys h = None \<or> \<not> is_negation h \<Longrightarrow> snd (get_sub_schema keys k) h = keys h"
proof (cases "h = negate k")
  case True
  assume "keys h = None \<or> \<not> is_negation h"
  with True have "keys (negate k) = None" by (auto simp: is_negation_negate)
  then show ?thesis by (simp add: get_sub_schema_def Let_def)
next
  case False
  then show ?thesis
    by (auto simp: get_sub_schema_def Let_def split: option.splits prod.splits bool.splits)
qed

lemma fork_store:
  "snd (fork E kw keys k x) = keys \<or> snd (fork E kw keys k x) = snd (get_sub_schema keys k)"
proof (cases "is_simple x")
  case True
  then show ?thesis by (simp add: fork_simple)
next
  case False
  then show ?thesis
    by (cases "get_sub_schema keys k") (auto simp: fork_not_simple split: sum.splits)
qed

lemma fork_frame:
  "keys h = None \<or> \<not> is_negation h \<Longrightarrow> snd (fork E kw keys k x) h = keys h"
  using fork_store [of E kw keys k x] get_sub_schema_frame [of keys h k] by metis

lemma fork_at:
  assumes "keys k = Some T" and "keys (negate k) = None"
  shows "fst (fork E kw keys k v) =
     (if is_simple v then Inr v
      else fst (call E kw Map.empty v (map join_delim (filter (\<lambda>t. t \<noteq> []) T))))"
proof (cases "is_simple v")
  case True
  then show ?thesis by (simp add: fork_simple)
next
  case False
  from assms have "get_sub_schema keys k =
      (Inr (map join_delim (filter (\<lambda>t. t \<noteq> []) T)), keys)"
    by (simp add: get_sub_schema_def Let_def keys_get_def)
  with False show ?thesis by (simp add: fork_not_simple)
qed

lemma is_valid_at:
  "keys k = Some T \<Longrightarrow> keys (negate k) = None \<Longrightarrow> is_valid kw keys k"
  by (simp add: is_valid_def has_key_def)

lemma serialize_model_entry:
  assumes "keys k = Some T" and "keys (negate k) = None" and "\<not> is_negation k"
    and "distinct (map fst kvs)"
    and "serialize_model E kw keys kvs res = (Inr (PDict d), keys')"
  shows "(\<forall>v. (k, v) \<in> set kvs \<longrightarrow>
            (\<exists>r. map_of d k = Some r \<and> fst (fork E kw keys k v) = Inr r)) \<and>
         (k \<notin> fst ` set kvs \<longrightarrow> map_of d k = map_of res k)"
  using assms
proof (induction kvs arbitrary: keys res)
  case Nil
  then show ?case by simp
next
  case (Cons jx kvs)
  obtain j x where jx: "jx = (j, x)" by (cases jx)
  from Cons.prems(4) jx have dist: "distinct (map fst kvs)" and fresh: "j \<notin> fst ` set kvs"
    by simp_all
  have valid: "is_valid kw keys k" using Cons.prems(1,2) by (rule is_valid_at)
  show ?case
  proof (cases "is_valid kw keys j")
    case False
    with valid have ne: "j \<noteq> k" by blast
    from False Cons.prems(5) jx
    have run: "serialize_model E kw keys kvs res = (Inr (PDict d), keys')"
      by (simp add: serialize_model_skip)
    note IH = Cons.IH [OF Cons.prems(1,2,3) dist run]
    show ?thesis
    proof (intro conjI allI impI)
      fix v
      assume "(k, v) \<in> set (jx # kvs)"
      with jx ne have "(k, v) \<in> set kvs" by simp
      with IH show "\<exists>r. map_of d k = Some r \<and> fst (fork E kw keys k v) = Inr r" by blast
    next
      assume "k \<notin> fst ` set (jx # kvs)"
      then have "k \<notin> fst ` set kvs" by simp
      with IH show "map_of d k = map_of res k" by blast
    qed
  next
    case True
    obtain o' k' where f: "fork E kw keys j x = (o', k')" by (cases "fork E kw keys j x")
    show ?thesis
    proof (cases o')
      case (Inl e)
      with f True have "serialize_model E kw keys ((j, x) # kvs) res = (Inl e, k')"
        by (simp add: serialize_model_fail)
      with Cons.prems(5) jx show ?thesis by simp
    next
      case (Inr r0)
      with f True have
        "serialize_model E kw keys ((j, x) # kvs) res =
           serialize_model E kw k' kvs (dict_set res j r0)"
        by (simp add: serialize_model_step)
      with Cons.prems(5) jx
      have run: "serialize_model E kw k' kvs (dict_set res j r0) = (Inr (PDict d), keys')"
        by simp
      have k'eq: "k' = snd (fork E kw keys j x)" using f by simp
      have a: "k' k = Some T"
        unfolding k'eq using fork_frame [of keys k E kw j x] Cons.prems(1,3) by simp
      have b: "k' (negate k) = None"
        unfolding k'eq using fork_frame [of keys "negate k" E kw j x] Cons.prems(2) by simp
      note IH = Cons.IH [OF a b Cons.prems(3) dist run]
      have same: "\<And>v. fst (fork E kw k' k v) = fst (fork E kw keys k v)"
        by (simp add: fork_at [OF a b] fork_at [OF Cons.prems(1,2)])
      show ?thesis
      proof (cases "j = k")
        case True
        from fresh True have nk: "k \<notin> fst ` set kvs" by simp
        with IH have "map_of d k = map_of (dict_set res j r0) k" by blast
        with True have m: "map_of d k = Some r0" by (simp add: map_of_dict_set)
        from f Inr True have fk: "fst (fork E kw keys k x) = Inr r0" by simp
        show ?thesis
        proof (intro conjI allI impI)
          fix v
          assume "(k, v) \<in> set (jx # kvs)"
          with jx True have "v = x \<or> (k, v) \<in> set kvs" by auto
          moreover have "(k, v) \<notin> set kvs" using nk by force
          ultimately have "v = x" by blast
          with m fk show "\<exists>r. map_of d k = Some r \<and> fst (fork E kw keys k v) = Inr r"
            by blast
        next
          assume "k \<notin> fst ` set (jx # kvs)"
          with jx True show "map_of d k = map_of res k" by simp
        qed
      next
        case False
        show ?thesis
        proof (intro conjI allI impI)
          fix v
          assume "(k, v) \<in> set (jx # kvs)"
          with jx False have "(k, v) \<in> set kvs" by auto
          with IH obtain r where "map_of d k = Some r" "fst (fork E kw k' k v) = Inr r"
            by blast
          with same [of v]
          show "\<exists>r. map_of d k = Some r \<and> fst (fork E kw keys k v) = Inr r" by simp
        next
          assume "k \<notin> fst ` set (jx # kvs)"
          then have "k \<notin> fst ` set kvs" by simp
          with IH have "map_of d k = map_of (dict_set res j r0) k" by blast
          with False show "map_of d k = map_of res k" by (simp add: map_of_dict_set)
        qed
      qed
    qed
  qed
qed

lemma distinct_pair:
  assumes "distinct xs" and "set xs = {x, y}" and "x \<noteq> y"
  shows "xs = [x, y] \<or> xs = [y, x]"
proof -
  from assms have "length xs = 2" using distinct_card [of xs] by simp
  then obtain u w where xs: "xs = [u, w]"
    by (cases xs) (auto simp: length_Suc_conv)
  with assms(2) show ?thesis by (auto simp: doubleton_eq_iff)
qed

lemma merge_swap:
  "merge_schemas [sv, [''c'', ''b'']] = merge_schemas [sv, [''b'', ''c'']]"
proof -
  have n: "\<not> is_negation ''b''" "\<not> is_negation ''c''"
    by (simp_all add: is_negation_def NEGATION_def)
  show ?thesis
    unfolding merge_schemas_def
    by (auto simp: merge_add_plain [OF n(1)] merge_add_plain [OF n(2)] negate_def NEGATION_def)
qed

lemma call_schema_cong:
  assumes "merge_schemas [schema_of (resolve v), s1] = merge_schemas [schema_of (resolve v), s2]"
  shows "call E kw keys v s1 = call E kw keys v s2"
proof (cases "resolve v" rule: shape_cases)
  case leaf
  then consider (s) "is_simple (resolve v)"
    | (dt) "\<not> is_simple (resolve v)" "is_datetime (resolve v)"
    | (d) "\<not> is_simple (resolve v)" "\<not> is_datetime (resolve v)" "is_date (resolve v)"
    by blast
  then show ?thesis by cases (simp_all add: call_resolve Let_def)
next
  case iter
  then show ?thesis by (simp add: call_iterable)
next
  case model
  then show ?thesis using assms by (simp add: call_mixin)
next
  case none
  then show ?thesis by (simp add: call_none)
qed

lemma call_swap:
  "call E kw keys v [''c'', ''b''] = call E kw keys v [''b'', ''c'']"
  by (rule call_schema_cong) (rule merge_swap)

lemma split_dotted:
  "split_delim ''a.b'' = [''a'', ''b'']" "split_delim ''a.c'' = [''a'', ''c'']"
  "split_delim ''a'' = [''a'']"
  by (simp_all add: DELIM_def)

lemma dotted_in_merge:
  "''a.b'' \<in> merge_schemas [s, [''a.b'', ''a.c'']]"
  "''a.c'' \<in> merge_schemas [s, [''a.b'', ''a.c'']]"
  by (simp_all add: merge_schemas_def in_merge_add cancels_def is_negation_def negate_def
      NEGATION_def)

lemma stored_tails_alt:
  "stored_tails h ks =
     map (\<lambda>p. tl (split_delim p))
       (filter (\<lambda>p. hd (split_delim p) = h \<and> tl (split_delim p) \<noteq> []) ks)"
  by (induction ks) (simp_all add: stored_tails_def)

lemma dotted_store:
  assumes L: "set L = M" "distinct L"
    and ab: "''a.b'' \<in> M" "''a.c'' \<in> M"
    and only: "\<forall>p\<in>M. hd (split_delim p) = ''a'' \<or> hd (split_delim p) = ''-a'' \<longrightarrow>
        p = ''a'' \<or> p = ''a.b'' \<or> p = ''a.c''"
  shows "set_schema new_keys L ''-a'' = None"
    and "set_schema new_keys L ''a'' = Some [[''b''], [''c'']] \<or>
         set_schema new_keys L ''a'' = Some [[''c''], [''b'']]"
proof -
  have "\<not> (\<exists>p\<in>set L. hd (split_delim p) = ''-a'')"
  proof
    assume "\<exists>p\<in>set L. hd (split_delim p) = ''-a''"
    then obtain p where p: "p \<in> M" "hd (split_delim p) = ''-a''" using L(1) by blast
    with only have "p = ''a'' \<or> p = ''a.b'' \<or> p = ''a.c''" by blast
    with p(2) show False by (auto simp: split_dotted DELIM_def)
  qed
  then show "set_schema new_keys L ''-a'' = None"
    by (simp add: set_schema_lookup new_keys_def)
next
  let ?B = "filter (\<lambda>p. hd (split_delim p) = ''a'' \<and> tl (split_delim p) \<noteq> []) L"
  have dB: "distinct ?B" using L(2) by simp
  have sB: "set ?B = {''a.b'', ''a.c''}"
  proof
    show "set ?B \<subseteq> {''a.b'', ''a.c''}"
    proof
      fix p
      assume "p \<in> set ?B"
      then have p: "p \<in> M" "hd (split_delim p) = ''a''" "tl (split_delim p) \<noteq> []"
        using L(1) by auto
      with only have "p = ''a'' \<or> p = ''a.b'' \<or> p = ''a.c''" by blast
      with p(3) show "p \<in> {''a.b'', ''a.c''}" by (auto simp: split_dotted DELIM_def)
    qed
  next
    show "{''a.b'', ''a.c''} \<subseteq> set ?B" using ab L(1) by (auto simp: split_dotted DELIM_def)
  qed
  have "?B = [''a.b'', ''a.c''] \<or> ?B = [''a.c'', ''a.b'']"
    using dB sB by (rule distinct_pair) simp
  then have "stored_tails ''a'' L = [[''b''], [''c'']] \<or>
      stored_tails ''a'' L = [[''c''], [''b'']]"
    unfolding stored_tails_alt [of "''a''" L] by (auto simp: split_dotted DELIM_def)
  moreover have "hd (split_delim ''a.b'') = ''a''" by (simp add: DELIM_def)
  with ab(1) L(1) have "\<exists>p\<in>set L. hd (split_delim p) = ''a''" by blast
  then have "set_schema new_keys L ''a'' = Some (stored_tails ''a'' L)"
    by (simp add: set_schema_lookup new_keys_def)
  ultimately show "set_schema new_keys L ''a'' = Some [[''b''], [''c'']] \<or>
         set_schema new_keys L ''a'' = Some [[''c''], [''b'']]"
    by simp
qed

text \<open>
  Claim C7, as the code has it. A serializable object with a field \<^verbatim>\<open>a\<close>, serialized
  with the schema \<^verbatim>\<open>['a.b', 'a.c']\<close>: when the merged schema (the default schema of the
  object, then the given one) holds no path on \<^verbatim>\<open>a\<close> or \<^verbatim>\<open>-a\<close> other than \<^verbatim>\<open>a\<close>,
  \<^verbatim>\<open>a.b\<close> and \<^verbatim>\<open>a.c\<close>, and the set of merged paths is run through once each, the
  result holds for \<^verbatim>\<open>a\<close> what a new instance returns for the value of the field with
  the schema \<^verbatim>\<open>['b', 'c']\<close>, in whichever order the set gave the two paths.
\<close>

theorem dotted_schema_one_level:
  assumes "set (iter_set E (merge_schemas [s, [''a.b'', ''a.c'']])) =
      merge_schemas [s, [''a.b'', ''a.c'']]"
    and "distinct (iter_set E (merge_schemas [s, [''a.b'', ''a.c'']]))"
    and "\<forall>p\<in>merge_schemas [s, [''a.b'', ''a.c'']].
        hd (split_delim p) = ''a'' \<or> hd (split_delim p) = ''-a'' \<longrightarrow>
        p = ''a'' \<or> p = ''a.b'' \<or> p = ''a.c''"
    and "distinct (map fst kvs)"
    and "(''a'', v) \<in> set kvs"
    and "fst (call E kw new_keys (PModel s kvs) [''a.b'', ''a.c'']) = Inr (PDict d)"
  shows "\<exists>r. map_of d ''a'' = Some r \<and> fst (call E kw new_keys v [''b'', ''c'']) = Inr r"
proof -
  let ?K = "set_schema new_keys (iter_set E (merge_schemas [s, [''a.b'', ''a.c'']]))"
  note st = dotted_store [OF assms(1,2) dotted_in_merge assms(3)]
  from st(1) have n: "?K (negate ''a'') = None" by (simp add: negate_def NEGATION_def)
  from st(2) obtain T where T: "?K ''a'' = Some T"
    and Tc: "T = [[''b''], [''c'']] \<or> T = [[''c''], [''b'']]" by blast
  have na: "\<not> is_negation ''a''" by (simp add: is_negation_def NEGATION_def)
  from assms(6) obtain keys' where
    run: "serialize_model E kw ?K kvs [] = (Inr (PDict d), keys')"
    by (cases "serialize_model E kw ?K kvs []") (simp add: call_model)
  from serialize_model_entry [OF T n na assms(4) run] assms(5)
  obtain r where r: "map_of d ''a'' = Some r" "fst (fork E kw ?K ''a'' v) = Inr r" by blast
  have "fst (fork E kw ?K ''a'' v) = fst (call E kw new_keys v [''b'', ''c''])"
  proof (cases "is_simple v")
    case True
    then show ?thesis by (simp add: fork_simple call_simple)
  next
    case False
    from Tc show ?thesis
    proof
      assume "T = [[''b''], [''c'']]"
      with False fork_at [OF T n, of E kw v] show ?thesis by (simp add: new_keys_def)
    next
      assume "T = [[''c''], [''b'']]"
      with False fork_at [OF T n, of E kw v]
      have "fst (fork E kw ?K ''a'' v) = fst (call E kw Map.empty v [''c'', ''b''])" by simp
      then show ?thesis by (simp add: call_swap new_keys_def)
    qed
  qed
  with r show ?thesis by simp
qed

lemma merge_dotted_only: "merge_schemas [[], [''a.b'', ''a.c'']] = {''a.b'', ''a.c''}"
  by (auto simp: merge_schemas_def merge_add_def is_negation_def negate_def NEGATION_def)

lemma sample_iter_dotted:
  "iter_set (sample_env [''a.b'', ''a.c'', ''b'', ''c'']) {''a.b'', ''a.c''} = [''a.b'', ''a.c'']"
  by (simp add: sample_env_def)

lemma dotted_run:
  "fst (call (sample_env [''a.b'', ''a.c'', ''b'', ''c''])
          \<lparr>kw_is_greedy = Some False, kw_to_user_tz = None,
             kw_datetime_format = None, kw_date_format = None\<rparr> new_keys
          (PModel [] [(''a'', PModel [] [(''b'', PInt 1), (''c'', PInt 2), (''d'', PInt 3)]),
                      (''z'', PInt 0)])
          [''a.b'', ''a.c'']) =
     Inr (PDict [(''a'', PDict [(''b'', PInt 1), (''c'', PInt 2)])])"
  by code_simp

theorem dotted_schema_one_level_witness:
  "fst (call (sample_env [''a.b'', ''a.c'', ''b'', ''c''])
          \<lparr>kw_is_greedy = Some False, kw_to_user_tz = None,
             kw_datetime_format = None, kw_date_format = None\<rparr> new_keys
          (PModel [] [(''a'', PModel [] [(''b'', PInt 1), (''c'', PInt 2), (''d'', PInt 3)]),
                      (''z'', PInt 0)])
          [''a.b'', ''a.c'']) =
     Inr (PDict [(''a'', PDict [(''b'', PInt 1), (''c'', PInt 2)])]) \<and>
   fst (call (sample_env [''a.b'', ''a.c'', ''b'', ''c''])
          \<lparr>kw_is_greedy = Some False, kw_to_user_tz = None,
             kw_datetime_format = None, kw_date_format = None\<rparr> new_keys
          (PModel [] [(''b'', PInt 1), (''c'', PInt 2), (''d'', PInt 3)])
          [''b'', ''c'']) =
     Inr (PDict [(''b'', PInt 1), (''c'', PInt 2)])"
proof -
  let ?E = "sample_env [''a.b'', ''a.c'', ''b'', ''c'']"
  let ?kw = "\<lparr>kw_is_greedy = Some False, kw_to_user_tz = None,
             kw_datetime_format = None, kw_date_format = None\<rparr>"
  let ?v = "PModel [] [(''b'', PInt 1), (''c'', PInt 2), (''d'', PInt 3)]"
  let ?kvs = "[(''a'', ?v), (''z'', PInt 0)]"
  let ?d = "[(''a'', PDict [(''b'', PInt 1), (''c'', PInt 2)])]"
  have h1: "set (iter_set ?E (merge_schemas [[], [''a.b'', ''a.c'']])) =
      merge_schemas [[], [''a.b'', ''a.c'']]"
    by (simp add: merge_dotted_only sample_iter_dotted)
  have h2: "distinct (iter_set ?E (merge_schemas [[], [''a.b'', ''a.c'']]))"
    by (simp add: merge_dotted_only sample_iter_dotted)
  have h3: "\<forall>p\<in>merge_schemas [[], [''a.b'', ''a.c'']].
        hd (split_delim p) = ''a'' \<or> hd (split_delim p) = ''-a'' \<longrightarrow>
        p = ''a'' \<or> p = ''a.b'' \<or> p = ''a.c''"
    by (simp add: merge_dotted_only)
  have h4: "distinct (map fst ?kvs)" by simp
  have h5: "(''a'', ?v) \<in> set ?kvs" by simp
  from dotted_schema_one_level [OF h1 h2 h3 h4 h5 dotted_run]
  obtain r where r: "map_of ?d ''a'' = Some r" "fst (call ?E ?kw new_keys ?v [''b'', ''c'']) = Inr r"
    by blast
  from r(1) have "r = PDict [(''b'', PInt 1), (''c'', PInt 2)]" by simp
  with r(2) dotted_run show ?thesis by simp
qed

text \<open>
  Claim C7 as stated fails when the default schema of the object has a path on the
  field. With the default schema \<^verbatim>\<open>('-a',)\<close> the schema \<^verbatim>\<open>['a.b', 'a.c']\<close> leaves
  \<^verbatim>\<open>-a\<close> in the merged set and the result has no field \<^verbatim>\<open>a\<close>, while \<^verbatim>\<open>['a']\<close> takes
  \<^verbatim>\<open>-a\<close> out and the field is there. With the default schema \<^verbatim>\<open>('a.d',)\<close> and a
  non-greedy engine the sub-schema of \<^verbatim>\<open>a\<close> holds \<^verbatim>\<open>d\<close> as well, and the field \<^verbatim>\<open>d\<close>
  comes out, which \<^verbatim>\<open>['b', 'c']\<close> on the value of the field does not give. With the
  default schema \<^verbatim>\<open>('-a.d',)\<close> and a greedy engine the sub-schema holds \<^verbatim>\<open>-d\<close> and the
  field \<^verbatim>\<open>d\<close> is left out, which \<^verbatim>\<open>['b', 'c']\<close> on the value of the field lets through.
\<close>

theorem dotted_schema_default_paths:
  "fst (call (sample_env [''-a'', ''a.b'', ''a.c'', ''a'', ''b'', ''c'']) no_kwargs new_keys
     (PModel [''-a''] [(''a'', PModel [] [(''b'', PInt 1), (''d'', PInt 2)])])
     [''a.b'', ''a.c'']) = Inr (PDict []) \<and>
   fst (call (sample_env [''-a'', ''a.b'', ''a.c'', ''a'', ''b'', ''c'']) no_kwargs new_keys
     (PModel [''-a''] [(''a'', PModel [] [(''b'', PInt 1), (''d'', PInt 2)])])
     [''a'']) = Inr (PDict [(''a'', PDict [(''b'', PInt 1), (''d'', PInt 2)])]) \<and>
   fst (call (sample_env [''-a'', ''a.b'', ''a.c'', ''a'', ''b'', ''c'']) no_kwargs new_keys
     (PModel [] [(''b'', PInt 1), (''d'', PInt 2)])
     [''b'', ''c'']) = Inr (PDict [(''b'', PInt 1), (''d'', PInt 2)]) \<and>
   fst (call (sample_env [''a.d'', ''a.b'', ''a.c'', ''a'', ''b'', ''c'', ''d''])
          \<lparr>kw_is_greedy = Some False, kw_to_user_tz = None,
             kw_datetime_format = None, kw_date_format = None\<rparr> new_keys
     (PModel [''a.d''] [(''a'', PModel [] [(''b'', PInt 1), (''d'', PInt 2)])])
     [''a.b'', ''a.c'']) = Inr (PDict [(''a'', PDict [(''b'', PInt 1), (''d'', PInt 2)])]) \<and>
   fst (call (sample_env [''a.d'', ''a.b'', ''a.c'', ''a'', ''b'', ''c'', ''d''])
          \<lparr>kw_is_greedy = Some False, kw_to_user_tz = None,
             kw_datetime_format = None, kw_date_format = None\<rparr> new_keys
     (PModel [] [(''b'', PInt 1), (''d'', PInt 2)])
     [''b'', ''c'']) = Inr (PDict [(''b'', PInt 1)]) \<and>
   fst (call (sample_env [''-a.d'', ''a.b'', ''a.c'', ''b'', ''c'', ''-d'']) no_kwargs new_keys
     (PModel [''-a.d''] [(''a'', PModel [] [(''b'', PInt 1), (''d'', PInt 2)])])
     [''a.b'', ''a.c'']) = Inr (PDict [(''a'', PDict [(''b'', PInt 1)])]) \<and>
   fst (call (sample_env [''-a.d'', ''a.b'', ''a.c'', ''b'', ''c'', ''-d'']) no_kwargs new_keys
     (PModel [] [(''b'', PInt 1), (''d'', PInt 2)])
     [''b'', ''c'']) = Inr (PDict [(''b'', PInt 1), (''d'', PInt 2)])"
  by code_simp

end
